(* ===== verification/Go_Base.thy ===== *)
theory Go_Base
  imports Main "HOL-Library.Word" "HOL-Library.Multiset" "HOL-Library.Char_ord"
    "HOL-Library.List_Lexorder"
begin

text \<open>
  Prelude of the development: what the packages of the program share of the Go language and
  its standard library, and the lemmas the component theories use.
  \<^item> Strings are byte lists (\<^typ>\<open>string\<close>), as Go's are. \<open>ToLower\<close> maps the ASCII capitals;
    the Unicode case mapping of non-ASCII letters is not modelled (the program's only
    non-ASCII default, the Persian top-level domain, has no case). \<open>TrimSpace\<close> trims the six
    ASCII spaces.
  \<^item> \<open>int64\<close> values are integers; \<open>wrap64\<close> is written where a product of the source can leave
    the range, and \<open>quot64\<close> is Go's division, which truncates towards zero.
  \<^item> A Go map is an association list with distinct keys; the unspecified iteration order of
    \<open>range\<close> over a map is a parameter that permutes it.
  \<^item> \<open>bufio.Scanner\<close> with its 64 KiB token limit is \<open>scan_lines\<close>.
  \<^item> \<open>reachable\<close> and the locale \<open>invariant_system\<close> carry the invariant proofs of the state
    machines of the later theories.
\<close>

section \<open>Collections of the development\<close>

named_theorems op_defs \<open>definitions of the operations, unfolded by the component proofs\<close>
named_theorems frame \<open>fields an operation leaves unchanged\<close>
named_theorems inv_intro \<open>preservation of the component invariants\<close>

section \<open>Integers\<close>

definition wrap64 :: "int \<Rightarrow> int" where
  "wrap64 x = (x + 2 ^ 63) mod 2 ^ 64 - 2 ^ 63"

definition quot64 :: "int \<Rightarrow> int \<Rightarrow> int" where
  "quot64 a b = (if (0 \<le> a) = (0 \<le> b) then \<bar>a\<bar> div \<bar>b\<bar> else - (\<bar>a\<bar> div \<bar>b\<bar>))"

abbreviation (input) millisecond :: int where "millisecond \<equiv> 1000000"
abbreviation (input) second :: int where "second \<equiv> 1000000000"
abbreviation (input) minute :: int where "minute \<equiv> 60000000000"
abbreviation (input) hour :: int where "hour \<equiv> 3600000000000"

section \<open>Strings\<close>

abbreviation DOT :: char where "DOT \<equiv> CHR ''.''"
abbreviation COLON :: char where "COLON \<equiv> CHR '':''"
abbreviation NL :: char where "NL \<equiv> CHR 0x0A"
abbreviation CR :: char where "CR \<equiv> CHR 0x0D"

definition ascii_lower :: "char \<Rightarrow> char" where
  "ascii_lower c = (if 65 \<le> (of_char c :: int) \<and> (of_char c :: int) \<le> 90
                    then char_of ((of_char c :: int) + 32) else c)"

definition ToLower :: "string \<Rightarrow> string" where
  "ToLower s = map ascii_lower s"

definition TrimSuffix :: "string \<Rightarrow> string \<Rightarrow> string" where
  "TrimSuffix s t = (if length t \<le> length s \<and> drop (length s - length t) s = t
                     then take (length s - length t) s else s)"

fun IndexByte :: "string \<Rightarrow> char \<Rightarrow> nat option" where
  "IndexByte [] b = None"
| "IndexByte (c # cs) b = (if c = b then Some 0 else map_option Suc (IndexByte cs b))"

definition LastIndexByte :: "string \<Rightarrow> char \<Rightarrow> nat option" where
  "LastIndexByte s b = map_option (\<lambda>i. length s - 1 - i) (IndexByte (rev s) b)"

definition is_space :: "char \<Rightarrow> bool" where
  "is_space c = (c = CHR '' '' \<or> c = CHR 0x09 \<or> c = CHR 0x0A \<or> c = CHR 0x0B \<or> c = CHR 0x0C
                 \<or> c = CHR 0x0D)"

definition TrimSpace :: "string \<Rightarrow> string" where
  "TrimSpace s = rev (dropWhile is_space (rev (dropWhile is_space s)))"

definition is_ascii :: "string \<Rightarrow> bool" where
  "is_ascii s = list_all (\<lambda>c. (of_char c :: int) < 128) s"

text \<open>\<open>strings.Split\<close> with a one-byte separator.\<close>

fun Split :: "string \<Rightarrow> char \<Rightarrow> string list" where
  "Split [] b = [[]]"
| "Split (c # cs) b = (if c = b then [] # Split cs b
     else (case Split cs b of [] \<Rightarrow> [[c]] | w # ws \<Rightarrow> (c # w) # ws))"

section \<open>bufio.Scanner over a file\<close>

text \<open>
  \<open>scan_lines\<close> gives the lines the scanner delivers and whether it stopped with
  \<open>bufio.ErrTooLong\<close>: a line whose bytes fill the 64 KiB buffer before a newline.
\<close>

definition max_token :: int where "max_token = 65536"

definition drop_cr :: "string \<Rightarrow> string" where
  "drop_cr s = (if s \<noteq> [] \<and> last s = CR then butlast s else s)"

function scan_lines :: "string \<Rightarrow> string list \<times> bool" where
  "scan_lines s = (if s = [] then ([], False)
     else let raw = takeWhile (\<lambda>c. c \<noteq> NL) s
          in if max_token \<le> int (length raw) then ([], True)
             else let (ls, e) = scan_lines (drop (length raw + 1) s)
                  in (drop_cr raw # ls, e))"
  by pat_completeness auto
termination
  by (relation "measure length") (auto simp: Let_def)

declare scan_lines.simps [simp del]

definition line_text :: "string list \<Rightarrow> string" where
  "line_text ds = concat (map (\<lambda>d. d @ [NL]) ds)"

text \<open>The line can be written to a file and scanned back unchanged.\<close>

definition clean_line :: "string \<Rightarrow> bool" where
  "clean_line d \<longleftrightarrow> NL \<notin> set d \<and> int (length d) < max_token \<and> (d \<noteq> [] \<longrightarrow> last d \<noteq> CR)"

section \<open>Domain walks\<close>

text \<open>
  The loop shared by \<open>isIranTLD\<close>, \<open>isPreferIran\<close> and \<open>Store.IsIran\<close>: test the name, then cut
  it after its first dot, until no dot is left.
\<close>

function walk_up :: "(string \<Rightarrow> bool) \<Rightarrow> string \<Rightarrow> bool" where
  "walk_up p d = (if p d then True
     else case IndexByte d DOT of None \<Rightarrow> False
          | Some dot \<Rightarrow> walk_up p (drop (dot + 1) d))"
  by pat_completeness auto
termination
proof (relation "measure (\<lambda>(p, d). length d)", goal_cases)
  case 1
  show ?case by simp
next
  case (2 p d x)
  then show ?case by (cases d) auto
qed

declare walk_up.simps [simp del]

definition subdomain_of :: "string \<Rightarrow> string \<Rightarrow> bool" where
  "subdomain_of d s \<longleftrightarrow> d = s \<or> (\<exists>p. d = p @ DOT # s)"

section \<open>Reachability\<close>

inductive reachable :: "('s \<Rightarrow> bool) \<Rightarrow> ('s \<Rightarrow> 's \<Rightarrow> bool) \<Rightarrow> 's \<Rightarrow> bool" for init step where
  start: "init s \<Longrightarrow> reachable init step s"
| advance: "reachable init step s \<Longrightarrow> step s t \<Longrightarrow> reachable init step t"

text \<open>Iteration orders of Go maps: any permutation of the entries.\<close>

definition iter_order :: "('a list \<Rightarrow> 'a list) \<Rightarrow> bool" where
  "iter_order ord \<longleftrightarrow> (\<forall>xs. mset (ord xs) = mset xs)"

section \<open>Lemmas on integers\<close>

lemma wrap64_id: "- (2 ^ 63) \<le> x \<Longrightarrow> x < 2 ^ 63 \<Longrightarrow> wrap64 x = x"
  by (simp add: wrap64_def)

lemma quot64_pos: "0 \<le> a \<Longrightarrow> 0 < b \<Longrightarrow> quot64 a b = a div b"
  by (simp add: quot64_def)

section \<open>Lemmas on strings\<close>

lemma IndexByte_None: "IndexByte s b = None \<longleftrightarrow> b \<notin> set s"
  by (induction s) auto

lemma IndexByte_Some:
  "IndexByte s b = Some i \<Longrightarrow> i < length s \<and> s ! i = b \<and> b \<notin> set (take i s)"
proof (induction s arbitrary: i)
  case Nil
  then show ?case by simp
next
  case (Cons c cs)
  then show ?case by (cases i) (auto split: if_splits)
qed

lemma IndexByte_split:
  assumes "IndexByte s b = Some i"
  shows "s = take i s @ b # drop (i + 1) s"
  using IndexByte_Some [OF assms] by (metis Suc_eq_plus1 id_take_nth_drop)

lemma IndexByte_append: "b \<notin> set p \<Longrightarrow> IndexByte (p @ b # s) b = Some (length p)"
  by (induction p) auto

lemma LastIndexByte_append: "b \<notin> set s \<Longrightarrow> LastIndexByte (p @ b # s) b = Some (length p)"
  by (simp add: LastIndexByte_def IndexByte_append)

lemma LastIndexByte_None: "LastIndexByte s b = None \<longleftrightarrow> b \<notin> set s"
  by (simp add: LastIndexByte_def IndexByte_None)

lemma ToLower_Nil [simp]: "ToLower [] = []"
  by (simp add: ToLower_def)

lemma length_ToLower [simp]: "length (ToLower s) = length s"
  by (simp add: ToLower_def)

lemma ToLower_append: "ToLower (s @ t) = ToLower s @ ToLower t"
  by (simp add: ToLower_def)

lemma of_char_nonneg [simp]: "0 \<le> (of_char c :: int)"
  by (metis of_nat_0_le_iff of_nat_of_char)

lemma of_char_lt: "(of_char c :: int) < 256"
proof -
  have "(of_char c :: nat) < 256"
    using nat_of_char_less_256 by blast
  then have "int (of_char c) < 256" by simp
  then show ?thesis by (simp only: of_nat_of_char)
qed

lemma of_char_char_of_int: "0 \<le> n \<Longrightarrow> n < 256 \<Longrightarrow> (of_char (char_of n) :: int) = n"
  by simp

lemma ascii_lower_code:
  "(of_char (ascii_lower c) :: int) =
     (if 65 \<le> (of_char c :: int) \<and> (of_char c :: int) \<le> 90 then of_char c + 32 else of_char c)"
  by (auto simp: ascii_lower_def)

lemma ascii_lower_idem [simp]: "ascii_lower (ascii_lower c) = ascii_lower c"
proof -
  have "\<not> (65 \<le> (of_char (ascii_lower c) :: int) \<and> (of_char (ascii_lower c) :: int) \<le> 90)"
    by (auto simp: ascii_lower_code)
  then show ?thesis by (metis ascii_lower_def)
qed

lemma ToLower_idem [simp]: "ToLower (ToLower s) = ToLower s"
  by (simp add: ToLower_def)

lemma is_ascii_ToLower: "is_ascii (ToLower s) = is_ascii s"
proof -
  have "(of_char (ascii_lower c) :: int) < 128 \<longleftrightarrow> (of_char c :: int) < 128" for c
    by (auto simp: ascii_lower_code)
  then show ?thesis by (simp add: is_ascii_def ToLower_def list_all_iff)
qed

lemma TrimSuffix_dot:
  "TrimSuffix s [b] = (if s \<noteq> [] \<and> last s = b then butlast s else s)"
proof (cases s rule: rev_cases)
  case Nil
  then show ?thesis by (simp add: TrimSuffix_def)
next
  case (snoc ys y)
  then show ?thesis by (simp add: TrimSuffix_def)
qed

section \<open>Lemmas on scanning\<close>

lemma takeWhile_line: "NL \<notin> set d \<Longrightarrow> takeWhile (\<lambda>c. c \<noteq> NL) (d @ NL # r) = d"
  by (induction d) auto

lemma scan_line_step:
  assumes "clean_line d"
  shows "scan_lines (d @ NL # r) = (let (ls, e) = scan_lines r in (d # ls, e))"
proof -
  have tw: "takeWhile (\<lambda>c. c \<noteq> NL) (d @ NL # r) = d"
    using assms by (intro takeWhile_line) (simp add: clean_line_def)
  have cr: "drop_cr d = d"
    using assms by (auto simp: drop_cr_def clean_line_def)
  show ?thesis
    using assms by (subst scan_lines.simps) (simp add: tw cr Let_def clean_line_def)
qed

lemma scan_lines_Nil [simp]: "scan_lines [] = ([], False)"
  by (subst scan_lines.simps) simp

lemma scan_line_text: "list_all clean_line ds \<Longrightarrow> scan_lines (line_text ds) = (ds, False)"
proof (induction ds)
  case Nil
  then show ?case by (simp add: line_text_def)
next
  case (Cons d ds)
  have "scan_lines (line_text (d # ds)) = scan_lines (d @ NL # line_text ds)"
    by (simp add: line_text_def)
  with Cons show ?case by (simp add: scan_line_step)
qed

lemma scan_line_text_append:
  "list_all clean_line ds \<Longrightarrow>
   scan_lines (line_text ds @ r) = (let (ls, e) = scan_lines r in (ds @ ls, e))"
proof (induction ds)
  case Nil
  then show ?case by (simp add: line_text_def)
next
  case (Cons d ds)
  have "scan_lines (line_text (d # ds) @ r) = scan_lines (d @ NL # (line_text ds @ r))"
    by (simp add: line_text_def)
  with Cons show ?case by (simp add: scan_line_step split: prod.splits)
qed

lemma line_text_append: "line_text (xs @ ys) = line_text xs @ line_text ys"
  by (simp add: line_text_def)

section \<open>Lemmas on domain walks\<close>

lemma subdomain_of_refl [simp]: "subdomain_of d d"
  by (simp add: subdomain_of_def)

lemma subdomain_of_trans:
  "subdomain_of a b \<Longrightarrow> subdomain_of b c \<Longrightarrow> subdomain_of a c"
  by (auto simp: subdomain_of_def)

lemma subdomain_of_cut:
  assumes "IndexByte d DOT = Some i"
  shows "subdomain_of d s \<longleftrightarrow> d = s \<or> subdomain_of (drop (i + 1) d) s"
proof -
  let ?r = "drop (i + 1) d"
  have eq: "d = take i d @ DOT # ?r" and nd: "DOT \<notin> set (take i d)"
    using IndexByte_split [OF assms] IndexByte_Some [OF assms] by blast+
  have "(\<exists>p. d = p @ DOT # s) \<longleftrightarrow> subdomain_of ?r s" (is "?L \<longleftrightarrow> ?R")
  proof
    assume ?L
    then obtain p where "take i d @ DOT # ?r = p @ DOT # s"
      using eq by metis
    then show ?R
      using nd by (auto simp: subdomain_of_def append_eq_append_conv2 Cons_eq_append_conv
          append_eq_Cons_conv)
  next
    assume ?R
    then show ?L
      using eq unfolding subdomain_of_def by (metis append_Cons append_assoc)
  qed
  then show ?thesis by (auto simp: subdomain_of_def)
qed

lemma subdomain_of_no_dot: "IndexByte d DOT = None \<Longrightarrow> subdomain_of d s \<longleftrightarrow> d = s"
  by (auto simp: subdomain_of_def IndexByte_None)

lemma walk_up_iff: "walk_up p d \<longleftrightarrow> (\<exists>s. p s \<and> subdomain_of d s)"
proof (induction p d rule: walk_up.induct)
  case (1 p d)
  show ?case
  proof (cases "p d")
    case True
    then show ?thesis by (subst walk_up.simps) auto
  next
    case False
    show ?thesis
    proof (cases "IndexByte d DOT")
      case None
      with False show ?thesis
        by (subst walk_up.simps) (auto simp: subdomain_of_no_dot)
    next
      case (Some i)
      have "walk_up p d = walk_up p (drop (i + 1) d)"
        using False Some by (subst walk_up.simps) simp
      also have "\<dots> = (\<exists>s. p s \<and> subdomain_of (drop (i + 1) d) s)"
        using "1.IH" [OF False Some] .
      also have "\<dots> = (\<exists>s. p s \<and> subdomain_of d s)"
        using False by (auto simp: subdomain_of_cut [OF Some])
      finally show ?thesis .
    qed
  qed
qed

section \<open>Suffix matchers\<close>

text \<open>
  The contract of the three lookups that decide by a domain and its parents (\<open>isIranTLD\<close>,
  \<open>isPreferIran\<close>, \<open>Store.IsIran\<close>): normalise the name, then walk up.
\<close>

definition fold_name :: "string \<Rightarrow> string" where
  "fold_name d = ToLower (TrimSuffix d [DOT])"

locale suffix_matcher =
  fixes matches :: "'c \<Rightarrow> string \<Rightarrow> bool"
    and members :: "'c \<Rightarrow> string set"
  assumes matches_walk: "matches c d = walk_up (\<lambda>x. x \<in> members c) (fold_name d)"
begin

lemma matches_iff: "matches c d \<longleftrightarrow> (\<exists>s \<in> members c. subdomain_of (fold_name d) s)"
  by (auto simp: matches_walk walk_up_iff)

lemma matches_inherited: "matches c s \<Longrightarrow> subdomain_of (fold_name d) (fold_name s) \<Longrightarrow> matches c d"
  by (auto simp: matches_iff intro: subdomain_of_trans)

lemma matches_mono: "matches c d \<Longrightarrow> members c \<subseteq> members c' \<Longrightarrow> matches c' d"
  by (auto simp: matches_iff)

lemma matches_empty: "members c = {} \<Longrightarrow> \<not> matches c d"
  by (simp add: matches_iff)

end

section \<open>Invariants of state machines\<close>

locale invariant_system =
  fixes init :: "'s \<Rightarrow> bool"
    and step :: "'s \<Rightarrow> 's \<Rightarrow> bool"
    and inv :: "'s \<Rightarrow> bool"
  assumes inv_init: "init s \<Longrightarrow> inv s"
    and inv_step: "inv s \<Longrightarrow> step s t \<Longrightarrow> inv t"
begin

lemma reachable_inv: "reachable init step s \<Longrightarrow> inv s"
  by (induction rule: reachable.induct) (auto intro: inv_init inv_step)

end

section \<open>Lemmas on iteration orders\<close>

lemma iter_order_id: "iter_order (\<lambda>xs. xs)"
  by (simp add: iter_order_def)

lemma iter_order_rev: "iter_order rev"
  by (simp add: iter_order_def)

lemma iter_order_set: "iter_order ord \<Longrightarrow> set (ord xs) = set xs"
  by (metis iter_order_def set_mset_mset)

lemma iter_order_length: "iter_order ord \<Longrightarrow> length (ord xs) = length xs"
  by (metis iter_order_def size_mset)

lemma iter_order_distinct: "iter_order ord \<Longrightarrow> distinct (ord xs) = distinct xs"
  by (metis iter_order_def mset_eq_imp_distinct_iff)

end
