(* ===== verification/Circuit_Breaker.thy ===== *)
theory Circuit_Breaker
  imports Go_Base
begin

text \<open>
  The circuit breaker of \<open>internal/resolver/resolver.go\<close> (type \<open>circuitBreaker\<close>).
  The first part is the breaker as one thread runs it: each method is a function from the
  breaker to the breaker, and the callback \<open>onStateChange\<close> is the state it is called with, if
  it is called. The failure counter and the threshold are 32-bit and compared as signed.
  The second part is the same code as several goroutines run it: every atomic load, store, add
  and compare-and-swap is one step of \<open>cb_step\<close>, in any order.
\<close>

section \<open>One thread\<close>

datatype cbState = cbClosed | cbOpen | cbHalfOpen

record circuitBreaker =
  cb_state :: cbState
  cb_failures :: "32 word"
  cb_threshold :: "32 word"
  cb_lastOpen :: int
  cb_cooldown :: int

definition recordFailure :: "int \<Rightarrow> circuitBreaker \<Rightarrow> circuitBreaker \<times> cbState option" where
  "recordFailure now cb =
     (let n = cb_failures cb + 1; prev = cb_state cb
      in if prev = cbHalfOpen \<or> (prev = cbClosed \<and> sint (cb_threshold cb) \<le> sint n)
         then (cb\<lparr>cb_state := cbOpen, cb_lastOpen := now, cb_failures := 0\<rparr>, Some cbOpen)
         else (cb\<lparr>cb_failures := n\<rparr>, None))"

definition recordSuccess :: "circuitBreaker \<Rightarrow> circuitBreaker \<times> cbState option" where
  "recordSuccess cb =
     (case cb_state cb of
        cbHalfOpen \<Rightarrow> (cb\<lparr>cb_state := cbClosed, cb_failures := 0\<rparr>, Some cbClosed)
      | cbClosed \<Rightarrow> (if 0 < sint (cb_failures cb) then cb\<lparr>cb_failures := cb_failures cb - 1\<rparr> else cb, None)
      | cbOpen \<Rightarrow> (cb, None))"

definition isOpen :: "circuitBreaker \<Rightarrow> bool" where
  "isOpen cb = (case cb_state cb of cbOpen \<Rightarrow> True | cbHalfOpen \<Rightarrow> True | cbClosed \<Rightarrow> False)"

definition tryProbe :: "int \<Rightarrow> circuitBreaker \<Rightarrow> bool \<times> circuitBreaker" where
  "tryProbe now cb =
     (if cb_state cb \<noteq> cbOpen then (False, cb)
      else if now - cb_lastOpen cb \<le> cb_cooldown cb then (False, cb)
      else (True, cb\<lparr>cb_state := cbHalfOpen\<rparr>))"

text \<open>\<open>int32(threshold)\<close>, the conversion of the configured \<open>int\<close>.\<close>

definition new_breaker :: "int \<Rightarrow> int \<Rightarrow> circuitBreaker" where
  "new_breaker threshold cooldown = \<lparr>cb_state = cbClosed, cb_failures = 0,
     cb_threshold = of_int threshold, cb_lastOpen = 0, cb_cooldown = cooldown\<rparr>"

text \<open>The outcomes of queries, in the order they are recorded, with their times.\<close>

datatype outcome = Fail int | Succ

fun record_outcome :: "circuitBreaker \<Rightarrow> outcome \<Rightarrow> circuitBreaker" where
  "record_outcome cb (Fail t) = fst (recordFailure t cb)"
| "record_outcome cb Succ = fst (recordSuccess cb)"

definition record_all :: "circuitBreaker \<Rightarrow> outcome list \<Rightarrow> circuitBreaker" where
  "record_all = foldl record_outcome"

section \<open>Several goroutines\<close>

text \<open>
  Where a goroutine is inside a method. \<open>F_\<close>: \<open>recordFailure\<close>, \<open>S_\<close>: \<open>recordSuccess\<close>,
  \<open>P_\<close>: \<open>tryProbe\<close>; the name says which atomic operation comes next.
\<close>

datatype pc = Idle
  | F_load "32 word" | F_cas cbState | F_lastOpen | F_reset | F_notify
  | S_cas | S_reset | S_notify | S_failures | S_dec
  | P_lastOpen | P_cas

record cb_sys =
  sys_cb :: circuitBreaker
  sys_pc :: "nat \<Rightarrow> pc"
  sys_now :: int
  sys_gauge :: int
  sys_opens :: nat
  sys_probes :: nat

definition cb_init :: "int \<Rightarrow> int \<Rightarrow> int \<Rightarrow> cb_sys \<Rightarrow> bool" where
  "cb_init threshold cooldown t0 s \<longleftrightarrow>
     s = \<lparr>sys_cb = new_breaker threshold cooldown, sys_pc = (\<lambda>_. Idle), sys_now = t0,
          sys_gauge = 0, sys_opens = 0, sys_probes = 0\<rparr>"

abbreviation set_pc :: "nat \<Rightarrow> pc \<Rightarrow> cb_sys \<Rightarrow> cb_sys" where
  "set_pc i p s \<equiv> s\<lparr>sys_pc := (sys_pc s)(i := p)\<rparr>"

abbreviation upd_cb :: "(circuitBreaker \<Rightarrow> circuitBreaker) \<Rightarrow> cb_sys \<Rightarrow> cb_sys" where
  "upd_cb f s \<equiv> s\<lparr>sys_cb := f (sys_cb s)\<rparr>"

inductive cb_step :: "cb_sys \<Rightarrow> cb_sys \<Rightarrow> bool" where
  tick: "0 < d \<Longrightarrow> cb_step s (s\<lparr>sys_now := sys_now s + d\<rparr>)"
| fail_add: "sys_pc s i = Idle \<Longrightarrow>
    cb_step s (set_pc i (F_load (cb_failures (sys_cb s) + 1))
                 (upd_cb (\<lambda>cb. cb\<lparr>cb_failures := cb_failures cb + 1\<rparr>) s))"
| fail_load: "sys_pc s i = F_load n \<Longrightarrow> prev = cb_state (sys_cb s) \<Longrightarrow>
    cb_step s (set_pc i (if prev = cbHalfOpen
                           \<or> (prev = cbClosed \<and> sint (cb_threshold (sys_cb s)) \<le> sint n)
                         then F_cas prev else Idle) s)"
| fail_cas: "sys_pc s i = F_cas prev \<Longrightarrow> cb_state (sys_cb s) = prev \<Longrightarrow>
    cb_step s (set_pc i F_lastOpen (upd_cb (\<lambda>cb. cb\<lparr>cb_state := cbOpen\<rparr>)
                 (s\<lparr>sys_opens := sys_opens s + 1\<rparr>)))"
| fail_cas_lost: "sys_pc s i = F_cas prev \<Longrightarrow> cb_state (sys_cb s) \<noteq> prev \<Longrightarrow>
    cb_step s (set_pc i Idle s)"
| fail_lastOpen: "sys_pc s i = F_lastOpen \<Longrightarrow>
    cb_step s (set_pc i F_reset (upd_cb (\<lambda>cb. cb\<lparr>cb_lastOpen := sys_now s\<rparr>) s))"
| fail_reset: "sys_pc s i = F_reset \<Longrightarrow>
    cb_step s (set_pc i F_notify (upd_cb (\<lambda>cb. cb\<lparr>cb_failures := 0\<rparr>) s))"
| fail_notify: "sys_pc s i = F_notify \<Longrightarrow>
    cb_step s (set_pc i Idle (s\<lparr>sys_gauge := 1\<rparr>))"
| succ_load: "sys_pc s i = Idle \<Longrightarrow>
    cb_step s (set_pc i (case cb_state (sys_cb s) of cbHalfOpen \<Rightarrow> S_cas
                         | cbClosed \<Rightarrow> S_failures | cbOpen \<Rightarrow> Idle) s)"
| succ_cas: "sys_pc s i = S_cas \<Longrightarrow> cb_state (sys_cb s) = cbHalfOpen \<Longrightarrow>
    cb_step s (set_pc i S_reset (upd_cb (\<lambda>cb. cb\<lparr>cb_state := cbClosed\<rparr>) s))"
| succ_cas_lost: "sys_pc s i = S_cas \<Longrightarrow> cb_state (sys_cb s) \<noteq> cbHalfOpen \<Longrightarrow>
    cb_step s (set_pc i Idle s)"
| succ_reset: "sys_pc s i = S_reset \<Longrightarrow>
    cb_step s (set_pc i S_notify (upd_cb (\<lambda>cb. cb\<lparr>cb_failures := 0\<rparr>) s))"
| succ_notify: "sys_pc s i = S_notify \<Longrightarrow>
    cb_step s (set_pc i Idle (s\<lparr>sys_gauge := 0\<rparr>))"
| succ_failures: "sys_pc s i = S_failures \<Longrightarrow>
    cb_step s (set_pc i (if 0 < sint (cb_failures (sys_cb s)) then S_dec else Idle) s)"
| succ_dec: "sys_pc s i = S_dec \<Longrightarrow>
    cb_step s (set_pc i Idle (upd_cb (\<lambda>cb. cb\<lparr>cb_failures := cb_failures cb - 1\<rparr>) s))"
| probe_load: "sys_pc s i = Idle \<Longrightarrow>
    cb_step s (set_pc i (if cb_state (sys_cb s) = cbOpen then P_lastOpen else Idle) s)"
| probe_time: "sys_pc s i = P_lastOpen \<Longrightarrow>
    cb_step s (set_pc i (if sys_now s - cb_lastOpen (sys_cb s) \<le> cb_cooldown (sys_cb s)
                         then Idle else P_cas) s)"
| probe_cas: "sys_pc s i = P_cas \<Longrightarrow> cb_state (sys_cb s) = cbOpen \<Longrightarrow>
    cb_step s (set_pc i Idle (upd_cb (\<lambda>cb. cb\<lparr>cb_state := cbHalfOpen\<rparr>)
                 (s\<lparr>sys_probes := sys_probes s + 1\<rparr>)))"
| probe_cas_lost: "sys_pc s i = P_cas \<Longrightarrow> cb_state (sys_cb s) \<noteq> cbOpen \<Longrightarrow>
    cb_step s (set_pc i Idle s)"

inductive_cases cb_step_elim: "cb_step s t"

text \<open>Every probe answers one trip, and a trip that is not answered yet is the open state.\<close>

definition probe_inv :: "cb_sys \<Rightarrow> bool" where
  "probe_inv s \<longleftrightarrow>
     sys_opens s = sys_probes s + (if cb_state (sys_cb s) = cbOpen then 1 else 0)
     \<and> (\<forall>i prev. sys_pc s i = F_cas prev \<longrightarrow> prev \<noteq> cbOpen)"

section \<open>One thread: lemmas\<close>

lemma isOpen_iff: "isOpen cb \<longleftrightarrow> cb_state cb \<noteq> cbClosed"
  by (simp add: isOpen_def split: cbState.splits)

lemma recordFailure_event:
  "snd (recordFailure now cb) = Some st \<longleftrightarrow>
     st = cbOpen \<and> cb_state (fst (recordFailure now cb)) = cbOpen \<and> cb_state cb \<noteq> cbOpen"
  by (cases "cb_state cb") (auto simp: recordFailure_def Let_def)

lemma recordSuccess_event:
  "snd (recordSuccess cb) = Some st \<longleftrightarrow> st = cbClosed \<and> cb_state cb = cbHalfOpen"
  by (cases "cb_state cb") (auto simp: recordSuccess_def)

lemma recordSuccess_state:
  "cb_state (fst (recordSuccess cb)) = (if cb_state cb = cbHalfOpen then cbClosed else cb_state cb)"
  by (cases "cb_state cb") (auto simp: recordSuccess_def)

lemma recordFailure_state:
  "cb_state (fst (recordFailure now cb)) =
     (if cb_state cb = cbHalfOpen \<or> (cb_state cb = cbClosed \<and>
          sint (cb_threshold cb) \<le> sint (cb_failures cb + 1)) then cbOpen else cb_state cb)"
  by (auto simp: recordFailure_def Let_def)

lemma tryProbe_iff:
  "fst (tryProbe now cb) \<longleftrightarrow>
     cb_state cb = cbOpen \<and> cb_cooldown cb < now - cb_lastOpen cb"
  by (auto simp: tryProbe_def)

lemma tryProbe_state:
  "cb_state (snd (tryProbe now cb)) = (if fst (tryProbe now cb) then cbHalfOpen else cb_state cb)"
  by (auto simp: tryProbe_def)

lemma tryProbe_open: "isOpen (snd (tryProbe now cb)) = isOpen cb"
  by (auto simp: tryProbe_def isOpen_def)

lemma sint_of_int_small: "- (2 ^ 31) \<le> n \<Longrightarrow> n < 2 ^ 31 \<Longrightarrow> sint (of_int n :: 32 word) = n"
  by (simp add: sint_sbintrunc' signed_take_bit_int_eq_self)

section \<open>The breaker counts failures less successes\<close>

text \<open>
  What the breaker promises, without its encoding: a counter that a failure raises and a success
  lowers, which trips (\<^const>\<open>None\<close>) when a failure brings it to the threshold.
\<close>

fun leaky_count :: "int \<Rightarrow> outcome list \<Rightarrow> int \<Rightarrow> int option" where
  "leaky_count thr [] n = Some n"
| "leaky_count thr (Fail t # os) n = (if thr \<le> n + 1 then None else leaky_count thr os (n + 1))"
| "leaky_count thr (Succ # os) n = leaky_count thr os (if 0 < n then n - 1 else n)"

lemma record_all_Cons: "record_all cb (x # os) = record_all (record_outcome cb x) os"
  by (simp add: record_all_def)

lemma record_all_open: "cb_state cb = cbOpen \<Longrightarrow> cb_state (record_all cb os) = cbOpen"
proof (induction os arbitrary: cb)
  case Nil
  then show ?case by (simp add: record_all_def)
next
  case (Cons x os)
  then have "cb_state (record_outcome cb x) = cbOpen"
    by (cases x) (simp_all add: recordFailure_state recordSuccess_state)
  with Cons.IH show ?case by (simp add: record_all_def)
qed

text \<open>A closed breaker whose counter stands for the specification's value.\<close>

definition closed_at :: "int \<Rightarrow> int \<Rightarrow> circuitBreaker \<Rightarrow> bool" where
  "closed_at thr n cb \<longleftrightarrow> cb_state cb = cbClosed \<and> cb_failures cb = of_int n
     \<and> sint (cb_threshold cb) = thr"

declare record_outcome.simps [simp del]

lemma closed_at_fail:
  assumes "closed_at thr n cb" "0 \<le> n" "n < thr" "thr < 2 ^ 31"
  shows "record_outcome cb (Fail t) =
    (if thr \<le> n + 1 then cb\<lparr>cb_state := cbOpen, cb_lastOpen := t, cb_failures := 0\<rparr>
     else cb\<lparr>cb_failures := of_int (n + 1)\<rparr>)"
proof -
  have "sint (cb_failures cb + 1) = n + 1"
    using assms sint_of_int_small [of "n + 1"] by (simp add: closed_at_def)
  with assms show ?thesis by (simp add: closed_at_def recordFailure_def Let_def record_outcome.simps)
qed

lemma closed_at_succ:
  assumes "closed_at thr n cb" "0 \<le> n" "n < 2 ^ 31"
  shows "record_outcome cb Succ = cb\<lparr>cb_failures := of_int (if 0 < n then n - 1 else n)\<rparr>"
proof -
  have "sint (cb_failures cb) = n"
    using assms sint_of_int_small [of n] by (simp add: closed_at_def)
  with assms show ?thesis by (auto simp: closed_at_def recordSuccess_def record_outcome.simps)
qed

lemma record_all_leaky:
  assumes "closed_at thr n cb" "0 \<le> n" "n < thr" "thr < 2 ^ 31"
  shows "case leaky_count thr os n of
      Some k \<Rightarrow> closed_at thr k (record_all cb os) \<and> 0 \<le> k \<and> k < thr
    | None \<Rightarrow> cb_state (record_all cb os) = cbOpen"
  using assms
proof (induction os arbitrary: cb n)
  case Nil
  then show ?case by (simp add: record_all_def)
next
  case (Cons x os)
  show ?case
  proof (cases x)
    case (Fail t)
    show ?thesis
    proof (cases "thr \<le> n + 1")
      case True
      then have "cb_state (record_outcome cb x) = cbOpen"
        using Fail Cons.prems by (simp add: closed_at_fail)
      then show ?thesis
        using Fail True by (simp add: record_all_Cons record_all_open)
    next
      case False
      have "closed_at thr (n + 1) (cb\<lparr>cb_failures := of_int (n + 1)\<rparr>)"
        using Cons.prems by (simp add: closed_at_def)
      moreover have "record_outcome cb x = cb\<lparr>cb_failures := of_int (n + 1)\<rparr>"
        using Fail False Cons.prems by (simp add: closed_at_fail)
      ultimately show ?thesis
        using Cons.IH [of "n + 1" "record_outcome cb x"] Fail False Cons.prems
        unfolding record_all_Cons by simp
    qed
  next
    case Succ
    let ?m = "if 0 < n then n - 1 else n"
    have "record_outcome cb x = cb\<lparr>cb_failures := of_int ?m\<rparr>"
      using Succ Cons.prems by (simp add: closed_at_succ)
    moreover have "closed_at thr ?m (cb\<lparr>cb_failures := of_int ?m\<rparr>)"
      using Cons.prems by (simp add: closed_at_def)
    ultimately show ?thesis
      using Cons.IH [of ?m "record_outcome cb x"] Succ Cons.prems
      unfolding record_all_Cons by simp
  qed
qed

text \<open>
  C12. The breaker implements the leaky counter: from a new breaker with a threshold of 1 to
  \<open>2^31 - 1\<close>, any sequence of recorded outcomes leaves it closed with exactly the counter's value,
  or open when the counter reached the threshold.
\<close>

theorem breaker_refines_leaky_count:
  assumes "1 \<le> thr" "thr < 2 ^ 31"
  shows "(case leaky_count thr os 0 of
            Some k \<Rightarrow> cb_state (record_all (new_breaker thr c) os) = cbClosed
                      \<and> sint (cb_failures (record_all (new_breaker thr c) os)) = k
          | None \<Rightarrow> cb_state (record_all (new_breaker thr c) os) = cbOpen)"
proof -
  have "closed_at thr 0 (new_breaker thr c)"
    using assms sint_of_int_small [of thr] by (simp add: closed_at_def new_breaker_def)
  from record_all_leaky [OF this, of os] show ?thesis
    using assms by (auto simp: closed_at_def sint_of_int_small simp del: signed_of_int split: option.splits)
qed

theorem breaker_refines_leaky_count_witness:
  "leaky_count 2 [Fail 7, Succ, Fail 8, Fail 9] 0 = None
   \<and> cb_state (record_all (new_breaker 2 30) [Fail 7, Succ, Fail 8, Fail 9]) = cbOpen"
  using breaker_refines_leaky_count [of 2 30 "[Fail 7, Succ, Fail 8, Fail 9]"] by simp

section \<open>Several goroutines: every trip admits one probe\<close>

lemma probe_inv_init: "cb_init thr c t0 s \<Longrightarrow> probe_inv s"
  by (simp add: cb_init_def probe_inv_def new_breaker_def)

lemma probe_inv_step: "probe_inv s \<Longrightarrow> cb_step s t \<Longrightarrow> probe_inv t"
  by (erule cb_step_elim)
     (auto simp: probe_inv_def split: if_splits cbState.splits)

interpretation probes: invariant_system "cb_init thr c t0" cb_step probe_inv for thr c t0
  by unfold_locales (auto intro: probe_inv_init probe_inv_step)

text \<open>
  C6. However the goroutines interleave, a trip to the open state admits at most one probe: the
  probes granted are exactly the trips, less the one still waiting while the breaker is open.
\<close>

theorem one_probe_per_trip:
  assumes "reachable (cb_init thr c t0) cb_step s"
  shows "sys_opens s = sys_probes s + (if cb_state (sys_cb s) = cbOpen then 1 else 0)"
  using probes.reachable_inv [OF assms] by (simp add: probe_inv_def)

text \<open>A run in which a probe is granted before the time of the trip is stored.\<close>

definition race_breaker :: "cbState \<Rightarrow> 32 word \<Rightarrow> int \<Rightarrow> circuitBreaker" where
  "race_breaker st n t = \<lparr>cb_state = st, cb_failures = n, cb_threshold = 1,
     cb_lastOpen = t, cb_cooldown = 30 * second\<rparr>"

definition race_state ::
  "cbState \<Rightarrow> 32 word \<Rightarrow> int \<Rightarrow> pc \<Rightarrow> pc \<Rightarrow> int \<Rightarrow> nat \<Rightarrow> nat \<Rightarrow> cb_sys" where
  "race_state st n t p q g os ps = \<lparr>sys_cb = race_breaker st n t,
     sys_pc = (\<lambda>_. Idle)(0 := p, 1 := q), sys_now = 100 * second,
     sys_gauge = g, sys_opens = os, sys_probes = ps\<rparr>"

abbreviation race_reach :: "cb_sys \<Rightarrow> bool" where
  "race_reach \<equiv> reachable (cb_init 1 (30 * second) (100 * second)) cb_step"

lemmas race_simps = race_state_def race_breaker_def fun_eq_iff

lemma race_advance: "race_reach s \<Longrightarrow> cb_step s u \<Longrightarrow> u = t \<Longrightarrow> race_reach t"
  by (drule (1) reachable.advance) simp

lemma race_trip: "race_reach (race_state cbOpen 1 0 F_lastOpen Idle 0 1 0)"
proof -
  have "race_reach (race_state cbClosed 0 0 Idle Idle 0 0 0)"
    by (rule reachable.start) (auto simp: cb_init_def new_breaker_def race_simps)
  then have "race_reach (race_state cbClosed 1 0 (F_load 1) Idle 0 0 0)"
    by (rule race_advance [OF _ fail_add [of _ 0]]) (auto simp: race_simps)
  then have "race_reach (race_state cbClosed 1 0 (F_cas cbClosed) Idle 0 0 0)"
    by (rule race_advance [OF _ fail_load [of _ 0 1 cbClosed]]) (auto simp: race_simps)
  then show ?thesis
    by (rule race_advance [OF _ fail_cas [of _ 0 cbClosed]]) (auto simp: race_simps)
qed

lemma race_early_probe: "race_reach (race_state cbHalfOpen 1 0 F_lastOpen Idle 0 1 1)"
proof -
  have "race_reach (race_state cbOpen 1 0 F_lastOpen P_lastOpen 0 1 0)"
    by (rule race_advance [OF race_trip probe_load [of _ 1]]) (auto simp: race_simps)
  then have "race_reach (race_state cbOpen 1 0 F_lastOpen P_cas 0 1 0)"
    by (rule race_advance [OF _ probe_time [of _ 1]]) (auto simp: race_simps)
  then show ?thesis
    by (rule race_advance [OF _ probe_cas [of _ 1]]) (auto simp: race_simps)
qed

lemma race_closed_again: "race_reach (race_state cbClosed 0 0 F_lastOpen Idle 0 1 1)"
proof -
  have "race_reach (race_state cbHalfOpen 1 0 F_lastOpen S_cas 0 1 1)"
    by (rule race_advance [OF race_early_probe succ_load [of _ 1]]) (auto simp: race_simps)
  then have "race_reach (race_state cbClosed 1 0 F_lastOpen S_reset 0 1 1)"
    by (rule race_advance [OF _ succ_cas [of _ 1]]) (auto simp: race_simps)
  then have "race_reach (race_state cbClosed 0 0 F_lastOpen S_notify 0 1 1)"
    by (rule race_advance [OF _ succ_reset [of _ 1]]) (auto simp: race_simps)
  then show ?thesis
    by (rule race_advance [OF _ succ_notify [of _ 1]]) (auto simp: race_simps)
qed

lemma race_stale_gauge: "race_reach (race_state cbClosed 0 (100 * second) Idle Idle 1 1 1)"
proof -
  have "race_reach (race_state cbClosed 0 (100 * second) F_reset Idle 0 1 1)"
    by (rule race_advance [OF race_closed_again fail_lastOpen [of _ 0]]) (auto simp: race_simps)
  then have "race_reach (race_state cbClosed 0 (100 * second) F_notify Idle 0 1 1)"
    by (rule race_advance [OF _ fail_reset [of _ 0]]) (auto simp: race_simps)
  then show ?thesis
    by (rule race_advance [OF _ fail_notify [of _ 0]]) (auto simp: race_simps)
qed

text \<open>
  C39. The breaker publishes the open state before it stores the time of the trip. With a cooldown
  of 30 seconds a run exists in which the breaker trips and grants a probe at the same instant.
\<close>

theorem cooldown_skipped_by_race:
  "\<exists>s. reachable (cb_init 1 (30 * second) (100 * second)) cb_step s
     \<and> sys_probes s = 1 \<and> sys_now s = 100 * second \<and> cb_cooldown (sys_cb s) = 30 * second"
  by (intro exI conjI, rule race_early_probe) (simp_all add: race_simps)

text \<open>
  The callback runs after the state change, so the order of two callbacks can differ from the
  order of the changes: a run ends with every goroutine idle, the breaker closed and the gauge at 1.
\<close>

theorem gauge_stale_by_race:
  "\<exists>s. reachable (cb_init 1 (30 * second) (100 * second)) cb_step s
     \<and> cb_state (sys_cb s) = cbClosed \<and> (\<forall>i. sys_pc s i = Idle) \<and> sys_gauge s = 1"
  by (intro exI conjI, rule race_stale_gauge) (simp_all add: race_simps)

theorem one_probe_per_trip_witness:
  "sys_opens (race_state cbHalfOpen 1 0 F_lastOpen Idle 0 1 1) = 1
   \<and> sys_probes (race_state cbHalfOpen 1 0 F_lastOpen Idle 0 1 1) = 1"
  using one_probe_per_trip [OF race_early_probe] by (simp add: race_simps)

end
