(* ===== verification/Net_Addr.thy ===== *)
theory Net_Addr
  imports Go_Base
begin

text \<open>
  The parts of Go's \<open>net\<close>, \<open>net/netip\<close> and \<open>strconv\<close> that the program calls: \<open>netip.ParseAddr\<close>,
  \<open>netip.ParsePrefix\<close>, \<open>Prefix.Contains\<close>, \<open>net.ParseIP\<close>, \<open>net.ParseCIDR\<close>, \<open>net.IP.String\<close>,
  \<open>net.SplitHostPort\<close>, \<open>net.JoinHostPort\<close>, \<open>strconv.Atoi\<close>. Parse errors are \<^const>\<open>None\<close>: the
  program only tests that there is one. Addresses are words of 32 and 128 bits; a zone is a
  string, empty for none.
  The lemmas say what \<open>Contains\<close> decides (equal leading bits), that a printed IPv4 address
  parses back to itself, and that \<open>JoinHostPort\<close> and \<open>SplitHostPort\<close> are inverse.
\<close>

unbundle bit_operations_syntax

section \<open>Numbers\<close>

definition digit_val :: "char \<Rightarrow> int option" where
  "digit_val c = (let n = (of_char c :: int) in if 48 \<le> n \<and> n \<le> 57 then Some (n - 48) else None)"

definition hex_val :: "char \<Rightarrow> int option" where
  "hex_val c = (let n = (of_char c :: int) in
     if 48 \<le> n \<and> n \<le> 57 then Some (n - 48)
     else if 97 \<le> n \<and> n \<le> 102 then Some (n - 87)
     else if 65 \<le> n \<and> n \<le> 70 then Some (n - 55) else None)"

fun digits_val :: "int \<Rightarrow> string \<Rightarrow> int option" where
  "digits_val n [] = Some n"
| "digits_val n (c # cs) =
     (case digit_val c of None \<Rightarrow> None | Some d \<Rightarrow> digits_val (n * 10 + d) cs)"

text \<open>\<open>strconv.Atoi\<close>: an optional sign, at least one digit, a value of \<open>int64\<close>.\<close>

definition Atoi :: "string \<Rightarrow> int option" where
  "Atoi s =
     (let neg = (s \<noteq> [] \<and> hd s = CHR ''-'');
          ds = (if s \<noteq> [] \<and> (hd s = CHR ''-'' \<or> hd s = CHR ''+'') then tl s else s)
      in if ds = [] then None
         else case digits_val 0 ds of None \<Rightarrow> None
         | Some n \<Rightarrow> let v = (if neg then - n else n)
                    in if - (2 ^ 63) \<le> v \<and> v < 2 ^ 63 then Some v else None)"

definition digit_char :: "int \<Rightarrow> char" where
  "digit_char d = char_of (48 + d)"

text \<open>\<open>appendDecimal\<close> of one octet.\<close>

definition dec :: "int \<Rightarrow> string" where
  "dec x = (if 100 \<le> x then [digit_char (x div 100)] else [])
         @ (if 10 \<le> x then [digit_char (x div 10 mod 10)] else []) @ [digit_char (x mod 10)]"

definition hex_char :: "int \<Rightarrow> char" where
  "hex_char d = (if d < 10 then char_of (48 + d) else char_of (87 + d))"

text \<open>\<open>appendHex\<close> of one 16-bit group.\<close>

definition hex :: "int \<Rightarrow> string" where
  "hex x = (if 0x1000 \<le> x then [hex_char (x div 0x1000)] else [])
         @ (if 0x100 \<le> x then [hex_char (x div 0x100 mod 16)] else [])
         @ (if 0x10 \<le> x then [hex_char (x div 0x10 mod 16)] else []) @ [hex_char (x mod 16)]"

section \<open>netip.Addr\<close>

datatype addr = V4 "32 word" | V6 "128 word" string

fun Is4 :: "addr \<Rightarrow> bool" where
  "Is4 (V4 _) = True"
| "Is4 (V6 _ _) = False"

fun Zone :: "addr \<Rightarrow> string" where
  "Zone (V4 _) = []"
| "Zone (V6 _ z) = z"

definition bytes_int :: "int list \<Rightarrow> int" where
  "bytes_int bs = foldl (\<lambda>a b. a * 256 + b) 0 bs"

text \<open>
  \<open>parseIPv4Fields\<close>: the loop's state is whether the previous byte was a dot (or none), the
  value and the digit count of the current octet, and the octets already complete.
\<close>

fun parseIPv4Fields_loop :: "bool \<Rightarrow> int \<Rightarrow> nat \<Rightarrow> int list \<Rightarrow> string \<Rightarrow> int list option" where
  "parseIPv4Fields_loop pd val digLen fs [] = (if length fs < 3 then None else Some (fs @ [val]))"
| "parseIPv4Fields_loop pd val digLen fs (c # cs) =
     (case digit_val c of
        Some d \<Rightarrow>
          if digLen = 1 \<and> val = 0 then None
          else if val * 10 + d > 255 then None
          else parseIPv4Fields_loop False (val * 10 + d) (digLen + 1) fs cs
      | None \<Rightarrow>
          if c = DOT then
            if pd \<or> cs = [] then None
            else if length fs = 3 then None
            else parseIPv4Fields_loop True 0 0 (fs @ [val]) cs
          else None)"

definition parseIPv4Fields :: "string \<Rightarrow> int list option" where
  "parseIPv4Fields s = parseIPv4Fields_loop True 0 0 [] s"

definition parseIPv4 :: "string \<Rightarrow> addr option" where
  "parseIPv4 s = map_option (\<lambda>fs. V4 (of_int (bytes_int fs))) (parseIPv4Fields s)"

text \<open>One colon-separated group: digits read, value, rest; \<^const>\<open>None\<close> for a group too long.\<close>

fun scan_hex :: "nat \<Rightarrow> int \<Rightarrow> string \<Rightarrow> (nat \<times> int \<times> string) option" where
  "scan_hex off acc [] = Some (off, acc, [])"
| "scan_hex off acc (c # cs) =
     (case hex_val c of None \<Rightarrow> Some (off, acc, c # cs)
      | Some v \<Rightarrow> if off > 3 then None
                 else if acc * 16 + v > 65535 then None
                 else scan_hex (off + 1) (acc * 16 + v) cs)"

function parseIPv6_loop ::
  "int list \<Rightarrow> nat option \<Rightarrow> string \<Rightarrow> (int list \<times> nat option \<times> string) option" where
  "parseIPv6_loop ip el s =
     (if 16 \<le> length ip then Some (ip, el, s)
      else case scan_hex 0 0 s of
        None \<Rightarrow> None
      | Some (off, acc, rest) \<Rightarrow>
          if off = 0 then None
          else if rest \<noteq> [] \<and> hd rest = DOT then
            if el = None \<and> length ip \<noteq> 12 then None
            else if length ip + 4 > 16 then None
            else (case parseIPv4Fields s of None \<Rightarrow> None | Some fs \<Rightarrow> Some (ip @ fs, el, []))
          else if rest = [] then Some (ip @ [acc div 256, acc mod 256], el, [])
          else if hd rest \<noteq> COLON \<or> tl rest = [] then None
          else if hd (tl rest) = COLON then
            if el \<noteq> None then None
            else if tl (tl rest) = []
              then Some (ip @ [acc div 256, acc mod 256], Some (length ip + 2), [])
            else parseIPv6_loop (ip @ [acc div 256, acc mod 256]) (Some (length ip + 2)) (tl (tl rest))
          else parseIPv6_loop (ip @ [acc div 256, acc mod 256]) el (tl rest))"
  by pat_completeness auto
termination
  by (relation "measure (\<lambda>(ip, el, s). 16 - length ip)") auto

declare parseIPv6_loop.simps [simp del]

definition parseIPv6_body :: "nat option \<Rightarrow> string \<Rightarrow> int list option" where
  "parseIPv6_body el s =
     (case parseIPv6_loop [] el s of None \<Rightarrow> None
      | Some (ip, el', rest) \<Rightarrow>
          if rest \<noteq> [] then None
          else if length ip < 16 then
            (case el' of None \<Rightarrow> None
             | Some e \<Rightarrow> Some (take e ip @ replicate (16 - length ip) 0 @ drop e ip))
          else if el' \<noteq> None then None else Some ip)"

definition parseIPv6 :: "string \<Rightarrow> addr option" where
  "parseIPv6 s0 =
     (let (s, zone, bad) =
        (case IndexByte s0 (CHR ''%'') of None \<Rightarrow> (s0, [], False)
         | Some i \<Rightarrow> (take i s0, drop (i + 1) s0, drop (i + 1) s0 = []))
      in if bad then None
         else if take 2 s = [COLON, COLON] then
           if drop 2 s = [] then Some (V6 0 zone)
           else map_option (\<lambda>bs. V6 (of_int (bytes_int bs)) zone) (parseIPv6_body (Some 0) (drop 2 s))
         else map_option (\<lambda>bs. V6 (of_int (bytes_int bs)) zone) (parseIPv6_body None s))"

definition ParseAddr :: "string \<Rightarrow> addr option" where
  "ParseAddr s =
     (case dropWhile (\<lambda>c. c \<noteq> DOT \<and> c \<noteq> COLON \<and> c \<noteq> CHR ''%'') s of
        [] \<Rightarrow> None
      | c # _ \<Rightarrow> if c = DOT then parseIPv4 s else if c = COLON then parseIPv6 s else None)"

section \<open>netip.Prefix\<close>

record prefix =
  pfx_addr :: addr
  pfx_bits :: nat

definition BitLen :: "addr \<Rightarrow> nat" where
  "BitLen a = (if Is4 a then 32 else 128)"

definition ParsePrefix :: "string \<Rightarrow> prefix option" where
  "ParsePrefix s =
     (case LastIndexByte s (CHR ''/'') of None \<Rightarrow> None
      | Some i \<Rightarrow>
         (case ParseAddr (take i s) of None \<Rightarrow> None
          | Some ip \<Rightarrow>
             if Zone ip \<noteq> [] then None
             else let b = drop (i + 1) s in
               if length b > 1 \<and> (digit_val (hd b) = None \<or> digit_val (hd b) = Some 0) then None
               else (case Atoi b of None \<Rightarrow> None
                     | Some n \<Rightarrow> if n < 0 \<or> n > int (BitLen ip) then None
                                else Some \<lparr>pfx_addr = ip, pfx_bits = nat n\<rparr>)))"

definition Contains :: "prefix \<Rightarrow> addr \<Rightarrow> bool" where
  "Contains p ip =
     (case (pfx_addr p, ip) of
        (V4 a, V4 b) \<Rightarrow> drop_bit (32 - pfx_bits p) (b XOR a) = 0
      | (V6 a _, V6 b z) \<Rightarrow> z = [] \<and> (b XOR a) AND NOT (mask (128 - pfx_bits p)) = 0
      | _ \<Rightarrow> False)"

definition prefix_ok :: "prefix \<Rightarrow> bool" where
  "prefix_ok p \<longleftrightarrow> pfx_bits p \<le> BitLen (pfx_addr p) \<and> Zone (pfx_addr p) = []"

section \<open>net.IP\<close>

type_synonym IP = "8 word list"

definition To4 :: "IP \<Rightarrow> IP option" where
  "To4 ip = (if length ip = 4 then Some ip
     else if length ip = 16 \<and> take 10 ip = replicate 10 0 \<and> ip ! 10 = 255 \<and> ip ! 11 = 255
       then Some (drop 12 ip) else None)"

definition string4 :: "int list \<Rightarrow> string" where
  "string4 fs = dec (fs ! 0) @ DOT # dec (fs ! 1) @ DOT # dec (fs ! 2) @ DOT # dec (fs ! 3)"

fun groups :: "int list \<Rightarrow> int list" where
  "groups (a # b # bs) = (a * 256 + b) # groups bs"
| "groups _ = []"

text \<open>The longest run of at least two zero groups, the first one when there are several.\<close>

definition zero_run :: "int list \<Rightarrow> (nat \<times> nat) option" where
  "zero_run gs = foldl (\<lambda>best i.
       let l = length (takeWhile (\<lambda>g. g = 0) (drop i gs));
           cur = (case best of None \<Rightarrow> 0 | Some (s, e) \<Rightarrow> e - s)
       in if 2 \<le> l \<and> cur < l then Some (i, i + l) else best) None [0..<8]"

function string6_from :: "int list \<Rightarrow> (nat \<times> nat) option \<Rightarrow> nat \<Rightarrow> string" where
  "string6_from gs z i =
     (if 8 \<le> i then []
      else case z of
        Some (s, e) \<Rightarrow>
          if i = s \<and> s < e then
            [COLON, COLON] @ (if 8 \<le> e then [] else hex (gs ! e) @ string6_from gs z (e + 1))
          else (if i > 0 then [COLON] else []) @ hex (gs ! i) @ string6_from gs z (i + 1)
      | None \<Rightarrow> (if i > 0 then [COLON] else []) @ hex (gs ! i) @ string6_from gs z (i + 1))"
  by pat_completeness auto
termination
  by (relation "measure (\<lambda>(gs, z, i). 8 - i)") auto

declare string6_from.simps [simp del]

definition string6 :: "int list \<Rightarrow> string" where
  "string6 bs = (let gs = groups bs in string6_from gs (zero_run gs) 0)"

definition hex2 :: "int \<Rightarrow> string" where
  "hex2 n = [hex_char (n div 16), hex_char (n mod 16)]"

definition IP_String :: "IP \<Rightarrow> string" where
  "IP_String ip =
     (if length ip = 0 then ''<nil>''
      else if length ip \<noteq> 4 \<and> length ip \<noteq> 16 then CHR ''?'' # concat (map (hex2 \<circ> uint) ip)
      else case To4 ip of Some q \<Rightarrow> string4 (map uint q) | None \<Rightarrow> string6 (map uint ip))"

definition As16 :: "addr \<Rightarrow> 128 word" where
  "As16 a = (case a of V4 w \<Rightarrow> 0xFFFF00000000 OR ucast w | V6 w _ \<Rightarrow> w)"

text \<open>\<open>net.ParseIP\<close>, whose result is always the 16-byte form; \<open>IP.Equal\<close> compares that form.\<close>

definition ParseIP :: "string \<Rightarrow> 128 word option" where
  "ParseIP s = (case ParseAddr s of None \<Rightarrow> None
     | Some a \<Rightarrow> if Zone a \<noteq> [] then None else Some (As16 a))"

text \<open>\<open>dtoi\<close> of package \<open>net\<close>: leading digits, refused from \<open>0xFFFFFF\<close> on; leading zeros are fine.\<close>

definition dtoi_all :: "string \<Rightarrow> int option" where
  "dtoi_all s = (if s = [] then None
     else case digits_val 0 s of None \<Rightarrow> None | Some n \<Rightarrow> if n \<ge> 0xFFFFFF then None else Some n)"

text \<open>Whether \<open>net.ParseCIDR\<close> returns no error.\<close>

definition ParseCIDR_ok :: "string \<Rightarrow> bool" where
  "ParseCIDR_ok s =
     (case IndexByte s (CHR ''/'') of None \<Rightarrow> False
      | Some i \<Rightarrow>
         (case ParseAddr (take i s) of None \<Rightarrow> False
          | Some a \<Rightarrow> Zone a = [] \<and>
              (case dtoi_all (drop (i + 1) s) of None \<Rightarrow> False | Some n \<Rightarrow> n \<le> int (BitLen a))))"

text \<open>\<open>Addr.AsSlice\<close>.\<close>

definition AsSlice :: "addr \<Rightarrow> IP" where
  "AsSlice a = (case a of
      V4 w \<Rightarrow> map (\<lambda>i. ucast (drop_bit (8 * i) w)) [3, 2, 1, 0]
    | V6 w _ \<Rightarrow> map (\<lambda>i. ucast (drop_bit (8 * i) w)) [15, 14, 13, 12, 11, 10, 9, 8, 7, 6, 5, 4, 3, 2, 1, 0])"

section \<open>Host and port\<close>

definition SplitHostPort :: "string \<Rightarrow> (string \<times> string) option" where
  "SplitHostPort hp =
     (case LastIndexByte hp COLON of None \<Rightarrow> None
      | Some i \<Rightarrow>
         if hd hp = CHR ''['' then
           (case IndexByte hp (CHR '']'') of None \<Rightarrow> None
            | Some e \<Rightarrow>
               if e + 1 \<noteq> i then None
               else if CHR ''['' \<in> set (drop 1 hp) \<or> CHR '']'' \<in> set (drop (e + 1) hp) then None
               else Some (drop 1 (take e hp), drop (i + 1) hp))
         else if COLON \<in> set (take i hp) then None
         else if CHR ''['' \<in> set hp \<or> CHR '']'' \<in> set hp then None
         else Some (take i hp, drop (i + 1) hp))"

definition JoinHostPort :: "string \<Rightarrow> string \<Rightarrow> string" where
  "JoinHostPort h p = (if COLON \<in> set h then CHR ''['' # h @ CHR '']'' # COLON # p
                       else h @ COLON # p)"

section \<open>What Contains decides\<close>

lemma xor_eq_0: "x XOR y = 0 \<longleftrightarrow> x = y" for x y :: "'a::len word"
proof
  assume "x XOR y = 0"
  then have "bit (x XOR y) k = False" for k by simp
  then show "x = y" by (auto simp: bit_eq_iff bit_simps)
qed simp

lemma Contains_V4:
  "Contains p (V4 b) \<longleftrightarrow>
     (\<exists>a. pfx_addr p = V4 a \<and> drop_bit (32 - pfx_bits p) b = drop_bit (32 - pfx_bits p) a)"
  by (cases "pfx_addr p") (auto simp: Contains_def xor_eq_0)

lemma and_not_mask_zero:
  fixes x :: "'a::len word"
  shows "x AND NOT (mask n) = 0 \<longleftrightarrow> drop_bit n x = 0"
proof
  assume "x AND NOT (mask n) = 0"
  then have "\<not> bit (x AND NOT (mask n)) k" for k by simp
  then have "\<not> bit x (n + k)" for k
    by (auto simp: bit_simps dest: bit_imp_le_length)
  then show "drop_bit n x = 0"
    by (auto simp: bit_eq_iff bit_simps)
next
  assume "drop_bit n x = 0"
  then have "\<not> bit (drop_bit n x) k" for k by simp
  then have "\<not> bit x (n + k)" for k by (simp add: bit_simps)
  then have "\<not> bit x k" if "n \<le> k" for k
    using that by (metis le_Suc_ex)
  then show "x AND NOT (mask n) = 0"
    by (auto simp: bit_eq_iff bit_simps not_le [symmetric])
qed

lemma Contains_V6:
  "Contains p (V6 b z) \<longleftrightarrow>
     (\<exists>a z'. pfx_addr p = V6 a z' \<and> z = []
        \<and> drop_bit (128 - pfx_bits p) b = drop_bit (128 - pfx_bits p) a)"
  by (cases "pfx_addr p") (auto simp: Contains_def and_not_mask_zero xor_eq_0)

lemma Contains_same_family: "Contains p ip \<Longrightarrow> Is4 ip = Is4 (pfx_addr p)"
  by (auto simp: Contains_def split: addr.splits)

section \<open>Printed IPv4 addresses parse back\<close>

abbreviation octet :: "int \<Rightarrow> bool" where "octet n \<equiv> 0 \<le> n \<and> n < 256"

lemma of_char_digit: "0 \<le> d \<Longrightarrow> d < 10 \<Longrightarrow> (of_char (digit_char d) :: int) = 48 + d"
  by (simp add: digit_char_def)

lemma digit_val_digit_char [simp]: "0 \<le> d \<Longrightarrow> d < 10 \<Longrightarrow> digit_val (digit_char d) = Some d"
  by (simp add: digit_val_def of_char_digit)

lemma loop_dec:
  assumes "octet n"
  shows "\<exists>k > 0. parseIPv4Fields_loop pd 0 0 fs (dec n @ r) = parseIPv4Fields_loop False n k fs r"
proof -
  consider "n < 10" | "10 \<le> n" "n < 100" | "100 \<le> n" by linarith
  then show ?thesis
  proof cases
    case 1
    then show ?thesis using assms by (intro exI [of _ 1]) (simp add: dec_def)
  next
    case 2
    then have "n div 10 < 10" "n div 10 > 0" by auto
    then show ?thesis using 2 assms
      by (intro exI [of _ 2]) (simp add: dec_def numeral_2_eq_2)
  next
    case 3
    have q: "n div 100 < 10" "n div 100 > 0" using 3 assms by auto
    have e: "n div 100 * 10 + n div 10 mod 10 = n div 10"
      using div_mult_mod_eq [of "n div 10" 10] by (simp add: zdiv_zmult2_eq [symmetric])
    have b: "n div 10 \<le> 255" using assms by linarith
    have l: "n div 10 * 10 + n mod 10 = n" by simp
    show ?thesis using 3 q assms b
      by (intro exI [of _ 3]) (simp add: dec_def e l numeral_3_eq_3 del: div_mult_mod_eq)
  qed
qed

lemma dec_nonempty [simp]: "dec n \<noteq> []"
  by (simp add: dec_def)

lemma loop_dot:
  "r \<noteq> [] \<Longrightarrow> length fs < 3 \<Longrightarrow>
   parseIPv4Fields_loop False v k fs (DOT # r) = parseIPv4Fields_loop True 0 0 (fs @ [v]) r"
  by (simp add: digit_val_def)

lemma parseIPv4Fields_string4:
  assumes "octet a" "octet b" "octet c" "octet d"
  shows "parseIPv4Fields (string4 [a, b, c, d]) = Some [a, b, c, d]"
proof -
  let ?L = parseIPv4Fields_loop
  have step: "?L pd 0 0 fs (dec n @ DOT # dec m @ r) = ?L True 0 0 (fs @ [n]) (dec m @ r)"
    if "octet n" "length fs < 3" for pd fs n m r
    using loop_dec [OF that(1), of pd fs "DOT # dec m @ r"] that(2)
    by (metis append_is_Nil_conv dec_nonempty loop_dot)
  have "?L True 0 0 [] (string4 [a, b, c, d]) = ?L True 0 0 [a, b, c] (dec d @ [])"
    using step [of a "[]" True b "DOT # dec c @ DOT # dec d"]
      step [of b "[a]" True c "DOT # dec d"] step [of c "[a, b]" True d "[]"] assms
    by (simp add: string4_def)
  also have "\<dots> = Some [a, b, c, d]"
    using loop_dec [OF assms(4), of True "[a, b, c]" "[]"] by auto
  finally show ?thesis by (simp add: parseIPv4Fields_def)
qed

lemma digit_char_not_sep:
  "0 \<le> d \<Longrightarrow> d < 10 \<Longrightarrow>
   digit_char d \<noteq> DOT \<and> digit_char d \<noteq> COLON \<and> digit_char d \<noteq> CHR ''%''"
  by (auto dest: arg_cong [where f = "of_char :: char \<Rightarrow> int"] simp: of_char_digit)

lemma set_dec:
  assumes "octet n"
  shows "\<forall>c \<in> set (dec n). c \<noteq> DOT \<and> c \<noteq> COLON \<and> c \<noteq> CHR ''%''"
proof -
  have "0 \<le> n div 100" "n div 100 < 10" using assms by auto
  then show ?thesis
    using assms by (auto simp: dec_def digit_char_not_sep)
qed

lemma ParseAddr_string4:
  assumes "octet a" "octet b" "octet c" "octet d"
  shows "ParseAddr (string4 [a, b, c, d]) = Some (V4 (of_int (bytes_int [a, b, c, d])))"
proof -
  have "dropWhile (\<lambda>c. c \<noteq> DOT \<and> c \<noteq> COLON \<and> c \<noteq> CHR ''%'') (dec a @ DOT # r) = DOT # r" for r
    using set_dec [OF assms(1)] by (subst dropWhile_append2) auto
  then have "ParseAddr (string4 [a, b, c, d]) = parseIPv4 (string4 [a, b, c, d])"
    by (simp add: ParseAddr_def string4_def)
  then show ?thesis
    by (simp add: parseIPv4_def parseIPv4Fields_string4 [OF assms])
qed

lemma IP_String_parses4:
  assumes "To4 ip = Some q"
  shows "ParseAddr (IP_String ip) = Some (V4 (of_int (bytes_int (map uint q))))"
proof -
  have len: "length ip = 4 \<or> length ip = 16" and q: "length q = 4"
    using assms by (auto simp: To4_def split: if_splits)
  obtain a b c d where abcd: "q = [a, b, c, d]"
    using q by (auto simp: numeral_eq_Suc length_Suc_conv)
  have "octet (uint w)" for w :: "8 word"
    using unsigned_less [of w] by simp
  then show ?thesis
    using len assms by (auto simp: IP_String_def abcd ParseAddr_string4)
qed

section \<open>Host and port are inverse\<close>

lemma Split_Join:
  assumes "CHR ''['' \<notin> set h" "CHR '']'' \<notin> set h"
    and "COLON \<notin> set p" "CHR ''['' \<notin> set p" "CHR '']'' \<notin> set p"
  shows "SplitHostPort (JoinHostPort h p) = Some (h, p)"
proof (cases "COLON \<in> set h")
  case True
  let ?s = "CHR ''['' # h @ CHR '']'' # COLON # p"
  have l: "LastIndexByte ?s COLON = Some (length h + 2)"
    using LastIndexByte_append [OF assms(3), of "CHR ''['' # h @ [CHR '']'']"] by simp
  have e: "IndexByte ?s (CHR '']'') = Some (length h + 1)"
    using IndexByte_append [of "CHR '']''" "CHR ''['' # h"] assms(2) by simp
  show ?thesis
    using True assms
    by (simp only: JoinHostPort_def SplitHostPort_def l e option.case if_True list.sel) simp
next
  case False
  have l: "LastIndexByte (h @ COLON # p) COLON = Some (length h)"
    using assms(3) by (rule LastIndexByte_append)
  have "hd (h @ COLON # p) \<noteq> CHR ''[''"
    using assms(1) by (cases h) auto
  then show ?thesis
    using False assms by (simp add: JoinHostPort_def SplitHostPort_def l)
qed

end
