(* ===== verification/Dns_Msg.thy ===== *)
theory Dns_Msg
  imports Net_Addr
begin

text \<open>
  DNS messages as the program sees them. The package \<open>github.com/miekg/dns\<close> is not part of the
  repository: its message type is a record with the fields the program reads or writes, and the
  functions of it that the program calls are the fields of \<open>dns_lib\<close>, an argument of every
  definition that uses them. What the program relies on is stated as predicates on \<open>dns_lib\<close>
  (\<open>lib_reply_ok\<close>, \<open>lib_edns_ok\<close>, \<open>lib_types_ok\<close>), which are hypotheses of the theorems that
  need them. \<open>Msg.Copy\<close> makes a deep copy, which on values is the message itself.
  A nil \<open>*dns.Msg\<close> is \<^const>\<open>None\<close>.
\<close>

record rr_header =
  hName :: string
  hRrtype :: "16 word"
  hClass :: "16 word"
  hTtl :: "32 word"

text \<open>Address records carry a \<open>net.IP\<close>; the contents of every other record are opaque.\<close>

datatype rr = RR_A rr_header IP | RR_AAAA rr_header IP | RR_other rr_header string

fun Header :: "rr \<Rightarrow> rr_header" where
  "Header (RR_A h _) = h"
| "Header (RR_AAAA h _) = h"
| "Header (RR_other h _) = h"

record question =
  qName :: string
  qType :: "16 word"
  qClass :: "16 word"

record msg =
  mId :: "16 word"
  mResponse :: bool
  mAuthoritative :: bool
  mTruncated :: bool
  mRcode :: int
  mQuestion :: "question list"
  mAnswer :: "rr list"
  mExtra :: "rr list"

definition new_Msg :: msg where
  "new_Msg = \<lparr>mId = 0, mResponse = False, mAuthoritative = False, mTruncated = False,
              mRcode = 0, mQuestion = [], mAnswer = [], mExtra = []\<rparr>"

abbreviation (input) TypeA :: "16 word" where "TypeA \<equiv> 1"
abbreviation (input) TypeAAAA :: "16 word" where "TypeAAAA \<equiv> 28"
abbreviation (input) ClassINET :: "16 word" where "ClassINET \<equiv> 1"
abbreviation (input) RcodeSuccess :: int where "RcodeSuccess \<equiv> 0"
abbreviation (input) RcodeServerFailure :: int where "RcodeServerFailure \<equiv> 2"
abbreviation (input) RcodeNameError :: int where "RcodeNameError \<equiv> 3"
abbreviation (input) RcodeRefused :: int where "RcodeRefused \<equiv> 5"

record dns_lib =
  SetReply :: "msg \<Rightarrow> msg \<Rightarrow> msg"
  SetRcode :: "msg \<Rightarrow> msg \<Rightarrow> int \<Rightarrow> msg"
  SetEdns0 :: "nat \<Rightarrow> bool \<Rightarrow> msg \<Rightarrow> msg"
  IsEdns0 :: "msg \<Rightarrow> bool"
  SetQuestion :: "msg \<Rightarrow> string \<Rightarrow> 16 word \<Rightarrow> msg"
  TypeToString :: "16 word \<Rightarrow> string"
  Fqdn :: "string \<Rightarrow> string"

text \<open>\<open>SetReply\<close> takes over the request's identifier and question and leaves the records alone.\<close>

definition lib_reply_ok :: "dns_lib \<Rightarrow> bool" where
  "lib_reply_ok L \<longleftrightarrow> (\<forall>m req. mId (SetReply L m req) = mId req
      \<and> mQuestion (SetReply L m req) = take 1 (mQuestion req)
      \<and> mRcode (SetReply L m req) = RcodeSuccess
      \<and> mAnswer (SetReply L m req) = mAnswer m)"

text \<open>\<open>SetRcode\<close> makes the reply with a response code and no records.\<close>

definition lib_rcode_ok :: "dns_lib \<Rightarrow> bool" where
  "lib_rcode_ok L \<longleftrightarrow> (\<forall>m req c. mId (SetRcode L m req c) = mId req \<and> mRcode (SetRcode L m req c) = c
      \<and> mAnswer (SetRcode L m req c) = mAnswer m)"

text \<open>\<open>SetEdns0\<close> adds an OPT record: only the additional section changes.\<close>

definition lib_edns_ok :: "dns_lib \<Rightarrow> bool" where
  "lib_edns_ok L \<longleftrightarrow> (\<forall>n b m. mQuestion (SetEdns0 L n b m) = mQuestion m
      \<and> IsEdns0 L (SetEdns0 L n b m))"

text \<open>\<open>TypeToString\<close> is a map from type codes to mnemonics; a missing code reads as the empty string.\<close>

definition lib_types_ok :: "dns_lib \<Rightarrow> bool" where
  "lib_types_ok L \<longleftrightarrow> (\<forall>t. COLON \<notin> set (TypeToString L t))
     \<and> TypeToString L TypeA = ''A'' \<and> TypeToString L TypeAAAA = ''AAAA''
     \<and> (\<forall>t u. TypeToString L t = TypeToString L u \<longrightarrow> TypeToString L t \<noteq> [] \<longrightarrow> t = u)"

definition ServerFail :: "dns_lib \<Rightarrow> msg option \<Rightarrow> msg" where
  "ServerFail L req =
     (case req of None \<Rightarrow> new_Msg | Some q \<Rightarrow> SetReply L new_Msg q)\<lparr>mRcode := RcodeServerFailure\<rparr>"

text \<open>A library to evaluate the definitions with.\<close>

definition sample_lib :: dns_lib where
  "sample_lib = \<lparr>
     SetReply = (\<lambda>m q. m\<lparr>mId := mId q, mResponse := True, mRcode := RcodeSuccess,
                         mQuestion := take 1 (mQuestion q)\<rparr>),
     SetRcode = (\<lambda>m q c. m\<lparr>mId := mId q, mResponse := True, mRcode := c,
                           mQuestion := take 1 (mQuestion q)\<rparr>),
     SetEdns0 = (\<lambda>n b m. m\<lparr>mExtra := mExtra m @
        [RR_other \<lparr>hName = ''.'', hRrtype = 41, hClass = of_nat n, hTtl = 0\<rparr> []]\<rparr>),
     IsEdns0 = (\<lambda>m. list_ex (\<lambda>r. hRrtype (Header r) = 41) (mExtra m)),
     SetQuestion = (\<lambda>m z t. m\<lparr>mQuestion := [\<lparr>qName = z, qType = t, qClass = ClassINET\<rparr>]\<rparr>),
     TypeToString = (\<lambda>t. if t = 1 then ''A'' else if t = 28 then ''AAAA''
        else if t = 15 then ''MX'' else if t = 16 then ''TXT'' else ''''),
     Fqdn = (\<lambda>s. if s \<noteq> [] \<and> last s = DOT then s else s @ [DOT])\<rparr>"

definition sample_query :: "16 word \<Rightarrow> string \<Rightarrow> 16 word \<Rightarrow> msg" where
  "sample_query i n t = new_Msg\<lparr>mId := i, mQuestion := [\<lparr>qName = n, qType = t, qClass = ClassINET\<rparr>]\<rparr>"

definition sample_answer :: "16 word \<Rightarrow> string \<Rightarrow> IP \<Rightarrow> 32 word \<Rightarrow> msg" where
  "sample_answer i n ip ttl = (sample_query i n TypeA)\<lparr>mResponse := True,
     mAnswer := [RR_A \<lparr>hName = n, hRrtype = TypeA, hClass = ClassINET, hTtl = ttl\<rparr> ip]\<rparr>"

section \<open>Lemmas\<close>

lemma sample_reply_ok: "lib_reply_ok sample_lib"
  by (simp add: lib_reply_ok_def sample_lib_def)

lemma sample_rcode_ok: "lib_rcode_ok sample_lib"
  by (simp add: lib_rcode_ok_def sample_lib_def)

lemma sample_edns_ok: "lib_edns_ok sample_lib"
  by (simp add: lib_edns_ok_def sample_lib_def)

lemma sample_types_ok: "lib_types_ok sample_lib"
  by (simp add: lib_types_ok_def sample_lib_def)

lemmas sample_lib_ok = sample_reply_ok sample_rcode_ok sample_edns_ok sample_types_ok

lemma ServerFail_rcode [simp]: "mRcode (ServerFail L req) = RcodeServerFailure"
  by (simp add: ServerFail_def)

lemma ServerFail_reply:
  "lib_reply_ok L \<Longrightarrow> mId (ServerFail L (Some q)) = mId q \<and> mAnswer (ServerFail L (Some q)) = []"
  by (simp add: ServerFail_def lib_reply_ok_def new_Msg_def)

end
