(* ===== verification/Dns_Cache.thy ===== *)
theory Dns_Cache
  imports Dns_Msg
begin

text \<open>
  Package \<open>internal/cache\<close>. The entries are an association list with distinct keys; every method
  holds \<open>Cache.mu\<close> while it touches them, so a method is one step. Readings of the clock are
  arguments (\<open>Get\<close> reads it twice), and so is the iteration order of the map in \<open>evictOne\<close>.
  TTLs are 32-bit words, as in the source. The locale \<open>response_cache\<close> is what the resolver
  relies on: whatever is looked up was stored under the key of the request.
\<close>

record entry =
  e_msg :: msg
  e_expires :: int

record cache =
  c_entries :: "(string \<times> entry) list"
  c_minTTL :: "32 word"
  c_maxTTL :: "32 word"
  c_maxEntries :: int
  c_stopped :: bool

definition cache_New :: "32 word \<Rightarrow> 32 word \<Rightarrow> int \<Rightarrow> cache" where
  "cache_New minTTL maxTTL maxEntries = \<lparr>c_entries = [], c_minTTL = minTTL, c_maxTTL = maxTTL,
     c_maxEntries = maxEntries, c_stopped = False\<rparr>"

definition makeKey :: "dns_lib \<Rightarrow> msg option \<Rightarrow> string" where
  "makeKey L req =
     (case req of None \<Rightarrow> []
      | Some q \<Rightarrow> (case mQuestion q of [] \<Rightarrow> []
         | x # _ \<Rightarrow> ToLower (qName x) @ '':'' @ TypeToString L (qType x)))"

fun responseMinTTL_loop :: "32 word \<Rightarrow> rr list \<Rightarrow> 32 word" where
  "responseMinTTL_loop ttl [] = ttl"
| "responseMinTTL_loop ttl (a # as) =
     responseMinTTL_loop (if hTtl (Header a) < ttl then hTtl (Header a) else ttl) as"

definition responseMinTTL :: "msg \<Rightarrow> 32 word" where
  "responseMinTTL m =
     (let ttl = responseMinTTL_loop (- 1) (mAnswer m) in if ttl = - 1 then 0 else ttl)"

definition drop_key :: "string \<Rightarrow> (string \<times> 'a) list \<Rightarrow> (string \<times> 'a) list" where
  "drop_key k es = filter (\<lambda>p. fst p \<noteq> k) es"

definition put_key :: "string \<Rightarrow> 'a \<Rightarrow> (string \<times> 'a) list \<Rightarrow> (string \<times> 'a) list" where
  "put_key k v es = (k, v) # drop_key k es"

definition cache_Get :: "dns_lib \<Rightarrow> int \<Rightarrow> int \<Rightarrow> msg option \<Rightarrow> cache \<Rightarrow> msg option \<times> cache" where
  "cache_Get L now now2 req c =
     (let key = makeKey L req
      in if key = [] then (None, c)
         else case map_of (c_entries c) key of
           None \<Rightarrow> (None, c)
         | Some e \<Rightarrow>
             if now < e_expires e then (Some ((e_msg e)\<lparr>mId := (case req of None \<Rightarrow> 0 | Some q \<Rightarrow> mId q)\<rparr>), c)
             else if e_expires e < now2 then (None, c\<lparr>c_entries := drop_key key (c_entries c)\<rparr>)
             else (None, c))"

fun oldest :: "string \<Rightarrow> int \<Rightarrow> (string \<times> entry) list \<Rightarrow> string" where
  "oldest k t [] = k"
| "oldest k t ((k', e) # es) =
     (if k = [] \<or> e_expires e < t then oldest k' (e_expires e) es else oldest k t es)"

definition evictOne ::
  "((string \<times> entry) list \<Rightarrow> (string \<times> entry) list) \<Rightarrow> (string \<times> entry) list \<Rightarrow> (string \<times> entry) list" where
  "evictOne ord es =
     (let sample = min 100 (length es); k = oldest [] 0 (take sample (ord es))
      in if k \<noteq> [] then drop_key k es else es)"

definition clamp_ttl :: "32 word \<Rightarrow> 32 word \<Rightarrow> 32 word \<Rightarrow> 32 word" where
  "clamp_ttl lo hi ttl = (let t = (if ttl < lo then lo else ttl) in if t > hi then hi else t)"

definition cache_Set ::
  "dns_lib \<Rightarrow> ((string \<times> entry) list \<Rightarrow> (string \<times> entry) list) \<Rightarrow> int \<Rightarrow> msg option \<Rightarrow> msg option \<Rightarrow>
     cache \<Rightarrow> cache" where
  "cache_Set L ord now req resp c =
     (case resp of None \<Rightarrow> c
      | Some r \<Rightarrow>
         if mRcode r \<noteq> RcodeSuccess \<or> mAnswer r = [] then c
         else let ttl = responseMinTTL r
              in if ttl = 0 then c
                 else let t = clamp_ttl (c_minTTL c) (c_maxTTL c) ttl;
                          key = makeKey L req;
                          es = (if c_maxEntries c > 0 \<and> int (length (c_entries c)) \<ge> c_maxEntries c
                                then evictOne ord (c_entries c) else c_entries c)
                      in c\<lparr>c_entries := put_key key
                             \<lparr>e_msg = r, e_expires = now + wrap64 (uint t * second)\<rparr> es\<rparr>)"

text \<open>One tick of the goroutine \<open>Cache.cleanup\<close>, and \<open>Cache.Stop\<close>.\<close>

definition cache_cleanup :: "int \<Rightarrow> cache \<Rightarrow> cache" where
  "cache_cleanup now c = c\<lparr>c_entries := filter (\<lambda>p. \<not> e_expires (snd p) < now) (c_entries c)\<rparr>"

definition cache_Stop :: "cache \<Rightarrow> cache" where
  "cache_Stop c = c\<lparr>c_stopped := True\<rparr>"

definition cache_inv :: "cache \<Rightarrow> bool" where
  "cache_inv c \<longleftrightarrow> distinct (map fst (c_entries c)) \<and> [] \<notin> fst ` set (c_entries c)
     \<and> (c_maxEntries c > 0 \<longrightarrow> int (length (c_entries c)) \<le> c_maxEntries c)"

definition stored :: "cache \<Rightarrow> (string \<times> msg) set" where
  "stored c = (\<lambda>(k, e). (k, e_msg e)) ` set (c_entries c)"

section \<open>The contract of a response cache\<close>

locale response_cache =
  fixes contents :: "'c \<Rightarrow> (string \<times> msg) set"
    and key :: "msg \<Rightarrow> string"
    and get :: "int \<Rightarrow> int \<Rightarrow> msg \<Rightarrow> 'c \<Rightarrow> msg option \<times> 'c"
    and set_resp :: "int \<Rightarrow> msg \<Rightarrow> msg \<Rightarrow> 'c \<Rightarrow> 'c"
    and tidy :: "int \<Rightarrow> 'c \<Rightarrow> 'c"
  assumes get_hit: "get t t2 q c = (Some m, c') \<Longrightarrow>
      c' = c \<and> (\<exists>m0. (key q, m0) \<in> contents c \<and> m = m0\<lparr>mId := mId q\<rparr>)"
    and get_contents: "contents (snd (get t t2 q c)) \<subseteq> contents c"
    and set_contents: "contents (set_resp t q r c) \<subseteq> insert (key q, r) (contents c)"
    and tidy_contents: "contents (tidy t c) \<subseteq> contents c"
begin

text \<open>A property of what is stored holds for every answer, and every operation keeps it.\<close>

definition holds :: "(string \<Rightarrow> msg \<Rightarrow> bool) \<Rightarrow> 'c \<Rightarrow> bool" where
  "holds P c \<longleftrightarrow> (\<forall>(k, m) \<in> contents c. P k m)"

lemma holds_get: "holds P c \<Longrightarrow> holds P (snd (get t t2 q c))"
  using get_contents unfolding holds_def by blast

lemma holds_set: "holds P c \<Longrightarrow> P (key q) r \<Longrightarrow> holds P (set_resp t q r c)"
  using set_contents unfolding holds_def by blast

lemma holds_tidy: "holds P c \<Longrightarrow> holds P (tidy t c)"
  using tidy_contents unfolding holds_def by blast

lemma get_holds:
  assumes "holds P c" "get t t2 q c = (Some m, c')"
  shows "\<exists>m0. P (key q) m0 \<and> m = m0\<lparr>mId := mId q\<rparr>"
  using get_hit [OF assms(2)] assms(1) unfolding holds_def by blast

lemma get_id: "get t t2 q c = (Some m, c') \<Longrightarrow> mId m = mId q"
  using get_hit by force

end

section \<open>Lemmas on keys and entries\<close>

lemma drop_key_keys: "fst ` set (drop_key k es) = fst ` set es - {k}"
  by (auto simp: drop_key_def)

lemma drop_key_distinct: "distinct (map fst es) \<Longrightarrow> distinct (map fst (drop_key k es))"
  by (simp add: drop_key_def distinct_map_filter)

lemma drop_key_length: "length (drop_key k es) \<le> length es"
  by (simp add: drop_key_def)

lemma drop_key_less: "k \<in> fst ` set es \<Longrightarrow> length (drop_key k es) < length es"
  by (auto simp: drop_key_def intro!: length_filter_less)

lemma map_of_drop_key: "map_of (drop_key k es) = (map_of es)(k := None)"
  by (induction es) (auto simp: drop_key_def)

lemma map_of_put_key: "map_of (put_key k v es) = (map_of es)(k \<mapsto> v)"
  by (simp add: put_key_def map_of_drop_key fun_eq_iff)

lemma oldest_mem: "oldest k t es = k \<or> oldest k t es \<in> fst ` set es"
  by (induction k t es rule: oldest.induct) auto

lemma oldest_started:
  "k \<noteq> [] \<Longrightarrow> [] \<notin> fst ` set es \<Longrightarrow> oldest k t es \<noteq> []"
  using oldest_mem by metis

lemma oldest_nonempty:
  assumes "es \<noteq> []" "[] \<notin> fst ` set es"
  shows "oldest [] t es \<in> fst ` set es \<and> oldest [] t es \<noteq> []"
proof -
  obtain k e r where es: "es = (k, e) # r" using assms(1) by (cases es) auto
  then have "oldest [] t es = oldest k (e_expires e) r" by simp
  moreover have "oldest k (e_expires e) r = k \<or> oldest k (e_expires e) r \<in> fst ` set r"
    by (rule oldest_mem)
  ultimately show ?thesis using assms(2) es by (auto simp: image_iff)
qed

abbreviation sampled ::
  "((string \<times> entry) list \<Rightarrow> (string \<times> entry) list) \<Rightarrow> (string \<times> entry) list \<Rightarrow> (string \<times> entry) list" where
  "sampled ord es \<equiv> take (min 100 (length es)) (ord es)"

lemma sampled_subset: "iter_order ord \<Longrightarrow> set (sampled ord es) \<subseteq> set es"
  using iter_order_set set_take_subset by metis

lemma sampled_nonempty: "iter_order ord \<Longrightarrow> es \<noteq> [] \<Longrightarrow> sampled ord es \<noteq> []"
  using iter_order_length [of ord es] by auto

lemma sampled_keys: "iter_order ord \<Longrightarrow> [] \<notin> fst ` set es \<Longrightarrow> [] \<notin> fst ` set (sampled ord es)"
  using sampled_subset by blast

lemma evictOne_length:
  assumes "iter_order ord" "es \<noteq> []" "[] \<notin> fst ` set es"
  shows "length (evictOne ord es) < length es"
proof -
  let ?s = "sampled ord es"
  have "oldest [] 0 ?s \<in> fst ` set ?s" and ne: "oldest [] 0 ?s \<noteq> []"
    using oldest_nonempty [of ?s 0] sampled_nonempty sampled_keys assms by blast+
  then have "oldest [] 0 ?s \<in> fst ` set es"
    using sampled_subset [OF assms(1)] by blast
  then show ?thesis
    using ne drop_key_less [of "oldest [] 0 ?s" es] by (simp add: evictOne_def Let_def)
qed

lemma evictOne_subset: "set (evictOne ord es) \<subseteq> set es"
  by (auto simp: evictOne_def Let_def drop_key_def)

lemma evictOne_distinct: "distinct (map fst es) \<Longrightarrow> distinct (map fst (evictOne ord es))"
  by (simp add: evictOne_def Let_def drop_key_distinct)

lemma makeKey_nonempty: "mQuestion q \<noteq> [] \<Longrightarrow> makeKey L (Some q) \<noteq> []"
  by (cases "mQuestion q") (simp_all add: makeKey_def)

lemma uint32_seconds: "wrap64 (uint (t :: 32 word) * second) = uint t * second"
proof -
  have "0 \<le> uint t" "uint t < 2 ^ 32" using unsigned_less [of t] by auto
  then have "0 \<le> uint t * second" "uint t * second < 2 ^ 63" by auto
  then show ?thesis by (intro wrap64_id) linarith+
qed

lemma clamp_ttl_bounds: "lo \<le> hi \<Longrightarrow> lo \<le> clamp_ttl lo hi t \<and> clamp_ttl lo hi t \<le> hi"
  by (auto simp: clamp_ttl_def Let_def)

text \<open>Whether \<open>Set\<close> stores a response.\<close>

definition cacheable :: "msg \<Rightarrow> bool" where
  "cacheable r \<longleftrightarrow> mRcode r = RcodeSuccess \<and> mAnswer r \<noteq> [] \<and> responseMinTTL r \<noteq> 0"

lemma cache_Set_stores:
  assumes "cacheable r"
  shows "map_of (c_entries (cache_Set L ord now (Some q) (Some r) c)) (makeKey L (Some q)) =
     Some \<lparr>e_msg = r,
           e_expires = now + uint (clamp_ttl (c_minTTL c) (c_maxTTL c) (responseMinTTL r)) * second\<rparr>"
  using assms by (simp add: cacheable_def cache_Set_def Let_def map_of_put_key uint32_seconds)

lemma cache_Set_skips: "\<not> cacheable r \<Longrightarrow> cache_Set L ord now q (Some r) c = c"
  by (auto simp: cacheable_def cache_Set_def Let_def)

lemma stored_Set: "stored (cache_Set L ord now (Some q) (Some r) c) \<subseteq> insert (makeKey L (Some q), r) (stored c)"
proof -
  have "set (evictOne ord (c_entries c)) \<subseteq> set (c_entries c)" by (rule evictOne_subset)
  then show ?thesis
    by (auto simp: cache_Set_def Let_def stored_def put_key_def drop_key_def)
qed

lemma stored_Get: "stored (snd (cache_Get L t t2 q c)) \<subseteq> stored c"
  by (auto simp: cache_Get_def Let_def stored_def drop_key_def split: option.splits)

lemma Get_hit:
  assumes "cache_Get L t t2 (Some q) c = (Some m, c')"
  shows "c' = c \<and> (\<exists>m0. (makeKey L (Some q), m0) \<in> stored c \<and> m = m0\<lparr>mId := mId q\<rparr>)"
proof -
  obtain e where e: "map_of (c_entries c) (makeKey L (Some q)) = Some e"
    and m: "m = (e_msg e)\<lparr>mId := mId q\<rparr>" "c' = c"
    using assms by (auto simp: cache_Get_def Let_def split: if_splits option.splits)
  have "(makeKey L (Some q), e_msg e) \<in> stored c"
    using map_of_SomeD [OF e] by (force simp: stored_def)
  with m show ?thesis by blast
qed

interpretation rc: response_cache stored "\<lambda>q. makeKey L (Some q)"
    "\<lambda>t t2 q c. cache_Get L t t2 (Some q) c" "\<lambda>t q r c. cache_Set L ord t (Some q) (Some r) c"
    cache_cleanup for L ord
proof unfold_locales
  show "c' = c \<and> (\<exists>m0. (makeKey L (Some q), m0) \<in> stored c \<and> m = m0\<lparr>mId := mId q\<rparr>)"
    if "cache_Get L t t2 (Some q) c = (Some m, c')" for t t2 q c m c'
    using that by (rule Get_hit)
  show "stored (snd (cache_Get L t t2 (Some q) c)) \<subseteq> stored c" for t t2 q c
    by (rule stored_Get)
  show "stored (cache_Set L ord t (Some q) (Some r) c) \<subseteq> insert (makeKey L (Some q), r) (stored c)"
    for t q r c by (rule stored_Set)
  show "stored (cache_cleanup t c) \<subseteq> stored c" for t c
    by (auto simp: cache_cleanup_def stored_def)
qed

section \<open>Properties\<close>

lemma cache_Set_inv:
  assumes "cache_inv c" "iter_order ord" "mQuestion q \<noteq> []"
  shows "cache_inv (cache_Set L ord now (Some q) (Some r) c)"
proof (cases "cacheable r")
  case False
  then show ?thesis using assms by (simp add: cache_Set_skips)
next
  case True
  let ?k = "makeKey L (Some q)"
  let ?full = "c_maxEntries c > 0 \<and> int (length (c_entries c)) \<ge> c_maxEntries c"
  define es where "es = (if ?full then evictOne ord (c_entries c) else c_entries c)"
  have es: "distinct (map fst es)" "[] \<notin> fst ` set es"
    using assms(1) evictOne_subset [of ord "c_entries c"]
    by (auto simp: es_def cache_inv_def evictOne_distinct)
  have len: "c_maxEntries c > 0 \<longrightarrow> int (length es) < c_maxEntries c"
  proof (cases ?full)
    case True
    then have "c_entries c \<noteq> []" by auto
    then show ?thesis
      using evictOne_length [OF assms(2), of "c_entries c"] assms(1) True
      by (auto simp: es_def cache_inv_def)
  qed (auto simp: es_def)
  have "cache_inv (c\<lparr>c_entries := put_key ?k e es\<rparr>)" for e
    using es len makeKey_nonempty [OF assms(3), of L] drop_key_length [of ?k es]
    by (auto simp: cache_inv_def put_key_def drop_key_distinct drop_key_keys)
  then show ?thesis
    using True by (simp add: cache_Set_def cacheable_def Let_def es_def)
qed

lemma cache_Get_inv: "cache_inv c \<Longrightarrow> cache_inv (snd (cache_Get L t t2 q c))"
  using drop_key_length [of "makeKey L q" "c_entries c"]
  by (auto simp: cache_Get_def Let_def cache_inv_def drop_key_distinct drop_key_keys
      split: option.splits)

lemma cache_cleanup_inv:
  assumes "cache_inv c"
  shows "cache_inv (cache_cleanup t c)"
proof -
  let ?p = "\<lambda>p. \<not> e_expires (snd p) < t"
  have "int (length (filter ?p (c_entries c))) \<le> c_maxEntries c" if "0 < c_maxEntries c"
    using assms that length_filter_le [of ?p "c_entries c"] unfolding cache_inv_def by linarith
  with assms show ?thesis
    unfolding cache_cleanup_def cache_inv_def by (auto simp: distinct_map_filter)
qed

lemmas cache_inv_ops [inv_intro] = cache_Set_inv cache_Get_inv cache_cleanup_inv

text \<open>
  Every operation of the cache keeps its invariant: distinct non-empty keys and, when
  \<open>cache_max_entries\<close> is positive, never more entries than that, whatever order the runtime
  iterates the map in when it looks for an entry to evict.
\<close>

theorem cache_size_bounded:
  assumes "cache_inv c" "iter_order ord" "mQuestion q \<noteq> []"
  shows "cache_inv (cache_Set L ord now (Some q) (Some r) c)
       \<and> cache_inv (snd (cache_Get L now now2 (Some q) c)) \<and> cache_inv (cache_cleanup now c)"
  using assms by (auto intro: inv_intro)

text \<open>
  C26. A lookup after a store: the response comes back with the identifier of the new request,
  exactly until its TTL, raised to \<open>min_ttl\<close> and cut to \<open>max_ttl\<close>, has passed; the multiplication
  by a second never overflows.
\<close>

theorem cache_get_after_set:
  assumes "cacheable r" "mQuestion q \<noteq> []" "makeKey L (Some q') = makeKey L (Some q)"
  shows "fst (cache_Get L t t2 (Some q') (cache_Set L ord now (Some q) (Some r) c)) =
     (if t < now + uint (clamp_ttl (c_minTTL c) (c_maxTTL c) (responseMinTTL r)) * second
      then Some (r\<lparr>mId := mId q'\<rparr>) else None)"
  using cache_Set_stores [OF assms(1), of L ord now q c] assms(3) makeKey_nonempty [OF assms(2), of L]
  by (simp add: cache_Get_def Let_def)

text \<open>The entry evicted expires no later than any other entry looked at.\<close>

lemma oldest_least:
  assumes "k \<noteq> []" "[] \<notin> fst ` set es" "oldest k t es = k'"
  shows "(k' = k \<and> (\<forall>p \<in> set es. t \<le> e_expires (snd p)))
    \<or> (\<exists>e. (k', e) \<in> set es \<and> e_expires e \<le> t \<and> (\<forall>p \<in> set es. e_expires e \<le> e_expires (snd p)))"
  using assms
proof (induction k t es rule: oldest.induct)
  case (1 k t)
  then show ?case by simp
next
  case (2 k t k1 e es)
  show ?case
  proof (cases "e_expires e < t")
    case True
    with 2 have "(k' = k1 \<and> (\<forall>p \<in> set es. e_expires e \<le> e_expires (snd p)))
      \<or> (\<exists>e'. (k', e') \<in> set es \<and> e_expires e' \<le> e_expires e
             \<and> (\<forall>p \<in> set es. e_expires e' \<le> e_expires (snd p)))"
      by auto
    then show ?thesis
    proof
      assume "k' = k1 \<and> (\<forall>p \<in> set es. e_expires e \<le> e_expires (snd p))"
      with True show ?thesis by (intro disjI2 exI [of _ e]) simp
    next
      assume "\<exists>e'. (k', e') \<in> set es \<and> e_expires e' \<le> e_expires e
             \<and> (\<forall>p \<in> set es. e_expires e' \<le> e_expires (snd p))"
      with True show ?thesis by (intro disjI2) (elim exE, rule_tac x = e' in exI, auto)
    qed
  next
    case False
    with 2 have "(k' = k \<and> (\<forall>p \<in> set es. t \<le> e_expires (snd p)))
      \<or> (\<exists>e'. (k', e') \<in> set es \<and> e_expires e' \<le> t
             \<and> (\<forall>p \<in> set es. e_expires e' \<le> e_expires (snd p)))"
      by auto
    then show ?thesis
    proof
      assume "k' = k \<and> (\<forall>p \<in> set es. t \<le> e_expires (snd p))"
      with False show ?thesis by simp
    next
      assume "\<exists>e'. (k', e') \<in> set es \<and> e_expires e' \<le> t
             \<and> (\<forall>p \<in> set es. e_expires e' \<le> e_expires (snd p))"
      with False show ?thesis by (intro disjI2) (elim exE, rule_tac x = e' in exI, auto)
    qed
  qed
qed

lemma oldest_sampled:
  assumes "es \<noteq> []" "[] \<notin> fst ` set es"
  shows "\<exists>e. (oldest [] 0 es, e) \<in> set es \<and> (\<forall>p \<in> set es. e_expires e \<le> e_expires (snd p))"
proof -
  obtain k0 e0 r where s: "es = (k0, e0) # r" using assms(1) by (cases es) auto
  have old: "oldest [] 0 es = oldest k0 (e_expires e0) r" by (simp add: s)
  have "k0 \<noteq> []" "[] \<notin> fst ` set r" using assms(2) by (auto simp: s)
  from oldest_least [OF this refl, of "e_expires e0"] show ?thesis
  proof
    assume "oldest k0 (e_expires e0) r = k0 \<and> (\<forall>p \<in> set r. e_expires e0 \<le> e_expires (snd p))"
    then show ?thesis unfolding old by (intro exI [of _ e0]) (simp add: s)
  next
    assume "\<exists>e. (oldest k0 (e_expires e0) r, e) \<in> set r \<and> e_expires e \<le> e_expires e0
      \<and> (\<forall>p \<in> set r. e_expires e \<le> e_expires (snd p))"
    then show ?thesis unfolding old by (elim exE, rule_tac x = e in exI) (simp add: s)
  qed
qed

text \<open>
  When the cache is full, the entry that \<open>evictOne\<close> removes is one of the (at most 100) entries
  sampled, none of the sampled entries expires earlier, and every other key keeps its entry.
\<close>

theorem evictOne_removes_oldest_sampled:
  assumes "iter_order ord" "es \<noteq> []" "[] \<notin> fst ` set es"
  shows "\<exists>k e. (k, e) \<in> set (take (min 100 (length es)) (ord es))
     \<and> (\<forall>p \<in> set (take (min 100 (length es)) (ord es)). e_expires e \<le> e_expires (snd p))
     \<and> map_of (evictOne ord es) = (map_of es)(k := None)"
proof -
  note s = sampled_nonempty [OF assms(1,2)] sampled_keys [OF assms(1,3)]
  have "oldest [] 0 (sampled ord es) \<noteq> []" using oldest_nonempty [OF s] by blast
  then have "map_of (evictOne ord es) = (map_of es)(oldest [] 0 (sampled ord es) := None)"
    by (simp add: evictOne_def Let_def map_of_drop_key)
  with oldest_sampled [OF s] show ?thesis by blast
qed

section \<open>Keys\<close>

lemma colon_split:
  assumes "COLON \<notin> set a" "COLON \<notin> set b" "x @ COLON # a = y @ COLON # b"
  shows "x = y \<and> a = b"
proof -
  have "Some (length x) = Some (length y)"
    using LastIndexByte_append [OF assms(1), of x] LastIndexByte_append [OF assms(2), of y] assms(3)
    by simp
  with assms(3) show ?thesis by simp
qed

lemma makeKey_eq:
  assumes "lib_types_ok L" "mQuestion q = x # xs" "mQuestion q' = x' # xs'"
  shows "makeKey L (Some q) = makeKey L (Some q') \<longleftrightarrow>
     ToLower (qName x) = ToLower (qName x') \<and> TypeToString L (qType x) = TypeToString L (qType x')"
  using assms colon_split [of "TypeToString L (qType x)" "TypeToString L (qType x')"]
  by (auto simp: makeKey_def lib_types_ok_def)

text \<open>
  Cache and singleflight keys keep queries apart: when the types have a mnemonic, two requests
  share a key exactly when the names agree up to case and the types are equal.
\<close>

theorem makeKey_separates:
  assumes "lib_types_ok L" "mQuestion q = x # xs" "mQuestion q' = x' # xs'"
    and "TypeToString L (qType x) \<noteq> []"
  shows "makeKey L (Some q) = makeKey L (Some q') \<longleftrightarrow>
     ToLower (qName x) = ToLower (qName x') \<and> qType x = qType x'"
  using makeKey_eq [OF assms(1-3)] assms(1,4) by (auto simp: lib_types_ok_def)

text \<open>
  Query types without a mnemonic all read as the empty string, so two of them share the key of
  a name: a response stored for one type is served for another type of the same name.
\<close>

theorem unknown_types_share_entry:
  assumes "mQuestion q = [x]" "mQuestion q' = [x\<lparr>qType := t'\<rparr>]"
    and "TypeToString L (qType x) = []" "TypeToString L t' = []"
    and "cacheable r" "t < now + uint (clamp_ttl (c_minTTL c) (c_maxTTL c) (responseMinTTL r)) * second"
  shows "fst (cache_Get L t t2 (Some q') (cache_Set L ord now (Some q) (Some r) c))
     = Some (r\<lparr>mId := mId q'\<rparr>)"
proof -
  have k: "makeKey L (Some q') = makeKey L (Some q)"
    using assms(1-4) by (simp add: makeKey_def)
  have "makeKey L (Some q) \<noteq> []"
    using assms(1) by (intro makeKey_nonempty) simp
  then show ?thesis
    using cache_Set_stores [OF assms(5), of L ord now q c] k assms(6)
    by (simp add: cache_Get_def Let_def)
qed

section \<open>Witnesses\<close>

abbreviation "cache1 \<equiv> cache_New 300 3600 1"
abbreviation "query1 \<equiv> sample_query 7 ''a.com.'' 1"
abbreviation "answer1 \<equiv> sample_answer 9 ''a.com.'' [5, 22, 0, 1] 60"

lemma cache1_inv: "cache_inv cache1"
  by (simp add: cache_inv_def cache_New_def)

lemma query1_question: "mQuestion query1 \<noteq> []"
  by (simp add: sample_query_def)

lemma answer1_cacheable: "cacheable answer1"
  by (simp add: cacheable_def sample_answer_def sample_query_def responseMinTTL_def Let_def new_Msg_def)

theorem cache_size_bounded_witness:
  "cache_inv (cache_Set sample_lib rev 0 (Some query1) (Some answer1) cache1)"
  using cache_size_bounded [OF cache1_inv iter_order_rev query1_question] by blast

theorem cache_get_after_set_witness:
  "fst (cache_Get sample_lib (299 * second) 0 (Some (sample_query 8 ''A.com.'' 1))
      (cache_Set sample_lib rev 0 (Some query1) (Some answer1) cache1))
   = Some (sample_answer 8 ''a.com.'' [5, 22, 0, 1] 60)"
proof -
  have k: "makeKey sample_lib (Some (sample_query 8 ''A.com.'' 1)) = makeKey sample_lib (Some query1)"
    by code_simp
  have t: "uint (clamp_ttl (c_minTTL cache1) (c_maxTTL cache1) (responseMinTTL answer1)) = 300"
    by code_simp
  show ?thesis
    using cache_get_after_set [OF answer1_cacheable query1_question k, of "299 * second" 0 rev 0 cache1]
    unfolding t by (simp add: sample_answer_def sample_query_def)
qed

theorem evictOne_removes_oldest_sampled_witness:
  "\<exists>k e. (k, e) \<in> set (rev [(''x:A'', \<lparr>e_msg = answer1, e_expires = 5\<rparr>),
                           (''y:A'', \<lparr>e_msg = answer1, e_expires = 3\<rparr>)])
     \<and> map_of (evictOne rev [(''x:A'', \<lparr>e_msg = answer1, e_expires = 5\<rparr>),
                           (''y:A'', \<lparr>e_msg = answer1, e_expires = 3\<rparr>)])
       = (map_of [(''x:A'', \<lparr>e_msg = answer1, e_expires = 5\<rparr>),
                  (''y:A'', \<lparr>e_msg = answer1, e_expires = 3\<rparr>)])(k := None)"
  using evictOne_removes_oldest_sampled [OF iter_order_rev,
      of "[(''x:A'', \<lparr>e_msg = answer1, e_expires = 5\<rparr>), (''y:A'', \<lparr>e_msg = answer1, e_expires = 3\<rparr>)]"]
  by auto

theorem makeKey_separates_witness:
  "makeKey sample_lib (Some query1) \<noteq> makeKey sample_lib (Some (sample_query 7 ''a.com.'' 28))"
  using makeKey_separates [OF sample_types_ok, of query1 "\<lparr>qName = ''a.com.'', qType = 1, qClass = 1\<rparr>" "[]"
      "sample_query 7 ''a.com.'' 28" "\<lparr>qName = ''a.com.'', qType = 28, qClass = 1\<rparr>" "[]"]
  by (simp add: sample_query_def sample_lib_def)

theorem unknown_types_share_entry_witness:
  "fst (cache_Get sample_lib 0 0 (Some (sample_query 8 ''a.com.'' 65281))
      (cache_Set sample_lib rev 0 (Some (sample_query 7 ''a.com.'' 65280)) (Some answer1) cache1))
   = Some (answer1\<lparr>mId := 8\<rparr>)"
proof -
  have t: "uint (clamp_ttl (c_minTTL cache1) (c_maxTTL cache1) (responseMinTTL answer1)) = 300"
    by code_simp
  show ?thesis
    using unknown_types_share_entry [of "sample_query 7 ''a.com.'' 65280"
        "\<lparr>qName = ''a.com.'', qType = 65280, qClass = 1\<rparr>" "sample_query 8 ''a.com.'' 65281" 65281
        sample_lib answer1 0 0 cache1 0 rev] answer1_cacheable
    unfolding t by (simp add: sample_query_def sample_lib_def)
qed

end
