(* ===== verification/File_System.thy ===== *)
theory File_System
  imports Go_Base
begin

text \<open>
  The files the program reads and replaces. A file system maps paths to contents; the system
  calls that change it are data (\<open>fsop\<close>), so that an operation of the program is the list of the
  calls it makes and a crash is a prefix of that list. \<open>write_io\<close> says which call of the
  temp-file pattern fails. The pattern itself (create a temporary file, write, sync, close,
  rename) is used by \<open>state.Save\<close>, \<open>Store.writeAll\<close> and \<open>Updater.update\<close>; the locale
  \<open>atomic_replace\<close> is what the three have in common.
\<close>

type_synonym fs = "string \<Rightarrow> string option"

datatype fsop =
    Op_create string
  | Op_append string string
  | Op_remove string
  | Op_rename string string

fun fs_apply :: "fsop \<Rightarrow> fs \<Rightarrow> fs" where
  "fs_apply (Op_create p) fs = fs(p \<mapsto> [])"
| "fs_apply (Op_append p d) fs = fs(p \<mapsto> (case fs p of None \<Rightarrow> d | Some c \<Rightarrow> c @ d))"
| "fs_apply (Op_remove p) fs = fs(p := None)"
| "fs_apply (Op_rename a b) fs =
     (case fs a of None \<Rightarrow> fs | Some c \<Rightarrow> (fs(a := None))(b \<mapsto> c))"

definition fs_run :: "fsop list \<Rightarrow> fs \<Rightarrow> fs" where
  "fs_run ops fs = fold fs_apply ops fs"

text \<open>What a crash can leave: the effect of the calls made so far.\<close>

definition crash_states :: "fsop list \<Rightarrow> fs \<Rightarrow> fs list" where
  "crash_states ops fs = map (\<lambda>k. fs_run (take k ops) fs) [0..<Suc (length ops)]"

text \<open>Which calls fail: \<open>CreateTemp\<close>, a write (with how many bytes it still wrote), \<open>Sync\<close>,
  \<open>Close\<close>, \<open>Rename\<close>.\<close>

record write_io =
  io_create_fails :: bool
  io_write_fails :: "nat option"
  io_sync_fails :: bool
  io_close_fails :: bool
  io_rename_fails :: bool

definition io_fine :: write_io where
  "io_fine = \<lparr>io_create_fails = False, io_write_fails = None, io_sync_fails = False,
              io_close_fails = False, io_rename_fails = False\<rparr>"

section \<open>Lemmas\<close>

lemma fs_run_Nil [simp]: "fs_run [] fs = fs"
  by (simp add: fs_run_def)

lemma fs_run_Cons [simp]: "fs_run (x # xs) fs = fs_run xs (fs_apply x fs)"
  by (simp add: fs_run_def)

lemma fs_run_append: "fs_run (xs @ ys) fs = fs_run ys (fs_run xs fs)"
  by (simp add: fs_run_def)

lemma crash_states_iff: "c \<in> set (crash_states ops fs) \<longleftrightarrow> (\<exists>k \<le> length ops. c = fs_run (take k ops) fs)"
  unfolding crash_states_def set_map set_upt by (force simp: less_Suc_eq_le)

lemma fs_run_in_crash_states: "fs_run ops fs \<in> set (crash_states ops fs)"
  by (auto simp: crash_states_iff intro: exI [of _ "length ops"])

text \<open>An operation touches only the given paths.\<close>

fun op_paths :: "fsop \<Rightarrow> string set" where
  "op_paths (Op_create p) = {p}"
| "op_paths (Op_append p d) = {p}"
| "op_paths (Op_remove p) = {p}"
| "op_paths (Op_rename a b) = {a, b}"

lemma fs_apply_other: "p \<notin> op_paths x \<Longrightarrow> fs_apply x fs p = fs p"
  by (cases x) (auto split: option.splits)

lemma fs_run_other: "\<forall>x \<in> set ops. p \<notin> op_paths x \<Longrightarrow> fs_run ops fs p = fs p"
  by (induction ops arbitrary: fs) (auto simp: fs_apply_other)

section \<open>Replacing a file through a temporary file\<close>

text \<open>
  The calls of an operation that replaces \<open>target\<close>: everything before a rename concerns the
  temporary file only, the rename (if it happens) moves the complete new content, and what
  follows concerns the temporary file again.
\<close>

locale atomic_replace =
  fixes calls :: "write_io \<Rightarrow> string \<Rightarrow> string \<Rightarrow> 'd \<Rightarrow> fsop list"
    and content :: "'d \<Rightarrow> string"
  assumes calls_shape: "tmp \<noteq> target \<Longrightarrow>
    \<exists>pre post. (\<forall>x \<in> set pre. op_paths x = {tmp}) \<and> (\<forall>x \<in> set post. op_paths x = {tmp})
      \<and> (calls io tmp target data = pre
         \<or> (calls io tmp target data = pre @ Op_rename tmp target # post
            \<and> (\<forall>fs. fs_run pre fs tmp = Some (content data))))"
begin

lemma crash_old_or_new:
  assumes "tmp \<noteq> target" and "c \<in> set (crash_states (calls io tmp target data) fs)"
  shows "c target = fs target \<or> c target = Some (content data)"
proof -
  obtain pre post where pre: "\<forall>x \<in> set pre. op_paths x = {tmp}"
    and post: "\<forall>x \<in> set post. op_paths x = {tmp}"
    and shape: "calls io tmp target data = pre
      \<or> (calls io tmp target data = pre @ Op_rename tmp target # post
         \<and> (\<forall>fs. fs_run pre fs tmp = Some (content data)))"
    using calls_shape [OF assms(1)] by metis
  obtain k where k: "c = fs_run (take k (calls io tmp target data)) fs"
    using assms(2) by (auto simp: crash_states_iff)
  have keep: "fs_run xs f target = f target" if "set xs \<subseteq> set pre \<or> set xs \<subseteq> set post" for xs f
    using that pre post assms(1) by (intro fs_run_other) auto
  show ?thesis
  proof (cases "calls io tmp target data = pre")
    case True
    then show ?thesis using k keep [of "take k pre" fs] set_take_subset by metis
  next
    case False
    with shape have eq: "calls io tmp target data = pre @ Op_rename tmp target # post"
      and new: "\<And>f. fs_run pre f tmp = Some (content data)" by auto
    show ?thesis
    proof (cases "k \<le> length pre")
      case True
      then show ?thesis using k eq keep [of "take k pre" fs] set_take_subset by fastforce
    next
      case kbig: False
      then obtain j where "take k (calls io tmp target data) = pre @ Op_rename tmp target # take j post"
        using eq by (cases "k - length pre") auto
      then have "c target = fs_apply (Op_rename tmp target) (fs_run pre fs) target"
        using k keep [of "take j post"] set_take_subset [of j post]
        by (simp add: fs_run_append)
      then show ?thesis using new by simp
    qed
  qed
qed

lemma others_untouched:
  assumes "tmp \<noteq> target" "p \<noteq> tmp" "p \<noteq> target"
  shows "fs_run (calls io tmp target data) fs p = fs p"
proof (rule fs_run_other, rule ballI)
  fix x assume "x \<in> set (calls io tmp target data)"
  moreover obtain pre post where "\<forall>x \<in> set pre. op_paths x = {tmp}" "\<forall>x \<in> set post. op_paths x = {tmp}"
    "calls io tmp target data = pre \<or> calls io tmp target data = pre @ Op_rename tmp target # post"
    using calls_shape [OF assms(1)] by metis
  ultimately show "p \<notin> op_paths x" using assms(2,3) by auto
qed

end

end
