(* ===== verification/Classifier.thy ===== *)
theory Classifier
  imports File_System Net_Addr
begin

text \<open>
  Package \<open>internal/classifier\<close>: the Iranian address ranges, loaded from a file of CIDR lines.
  \<open>slices.SortFunc\<close> sorts by descending prefix length; the order it gives ranges of equal length
  is unspecified, the model keeps their order. An I/O error of the scanner is the argument
  \<open>read_fails\<close>. \<open>IsIran\<close> and \<open>Reload\<close> hold \<open>Classifier.mu\<close> and are single steps.
\<close>

record classifier =
  iranRanges4 :: "prefix list"
  iranRanges6 :: "prefix list"

datatype cls_error = ClsOpen | ClsRead | ClsNoRanges

fun load_ranges :: "string list \<Rightarrow> classifier \<Rightarrow> classifier" where
  "load_ranges [] c = c"
| "load_ranges (line # ls) c =
     (if line = [] \<or> hd line = CHR ''#'' then load_ranges ls c
      else case ParsePrefix line of
        None \<Rightarrow> load_ranges ls c
      | Some p \<Rightarrow>
          if Is4 (pfx_addr p) then load_ranges ls (c\<lparr>iranRanges4 := iranRanges4 c @ [p]\<rparr>)
          else load_ranges ls (c\<lparr>iranRanges6 := iranRanges6 c @ [p]\<rparr>))"

definition sort_desc :: "prefix list \<Rightarrow> prefix list" where
  "sort_desc ps = sort_key (\<lambda>p. - int (pfx_bits p)) ps"

definition classifier_New :: "bool \<Rightarrow> string \<Rightarrow> fs \<Rightarrow> cls_error + classifier" where
  "classifier_New read_fails path fs =
     (case fs path of None \<Rightarrow> Inl ClsOpen
      | Some data \<Rightarrow>
         let (lines, too_long) = scan_lines data;
             c = load_ranges lines \<lparr>iranRanges4 = [], iranRanges6 = []\<rparr>
         in if too_long \<or> read_fails then Inl ClsRead
            else if length (iranRanges4 c) + length (iranRanges6 c) = 0 then Inl ClsNoRanges
            else Inr \<lparr>iranRanges4 = sort_desc (iranRanges4 c), iranRanges6 = sort_desc (iranRanges6 c)\<rparr>)"

definition classifier_IsIran :: "classifier \<Rightarrow> string \<Rightarrow> bool" where
  "classifier_IsIran c ipStr =
     (case ParseAddr ipStr of None \<Rightarrow> False
      | Some ip \<Rightarrow> list_ex (\<lambda>p. Contains p ip) (if Is4 ip then iranRanges4 c else iranRanges6 c))"

definition Reload :: "bool \<Rightarrow> string \<Rightarrow> fs \<Rightarrow> classifier \<Rightarrow> cls_error option \<times> classifier" where
  "Reload read_fails path fs c =
     (case classifier_New read_fails path fs of
        Inl e \<Rightarrow> (Some e, c)
      | Inr n \<Rightarrow> (None, c\<lparr>iranRanges4 := iranRanges4 n, iranRanges6 := iranRanges6 n\<rparr>))"

text \<open>A line of the file that gives a range.\<close>

definition range_line :: "string \<Rightarrow> prefix \<Rightarrow> bool" where
  "range_line line p \<longleftrightarrow> line \<noteq> [] \<and> hd line \<noteq> CHR ''#'' \<and> ParsePrefix line = Some p"

section \<open>Lemmas\<close>

lemma load_ranges4:
  "set (iranRanges4 (load_ranges ls c)) =
     set (iranRanges4 c) \<union> {p. \<exists>l \<in> set ls. range_line l p \<and> Is4 (pfx_addr p)}"
  by (induction ls c rule: load_ranges.induct) (auto simp: range_line_def split: option.splits)

lemma load_ranges6:
  "set (iranRanges6 (load_ranges ls c)) =
     set (iranRanges6 c) \<union> {p. \<exists>l \<in> set ls. range_line l p \<and> \<not> Is4 (pfx_addr p)}"
  by (induction ls c rule: load_ranges.induct) (auto simp: range_line_def split: option.splits)

lemma set_sort_desc [simp]: "set (sort_desc ps) = set ps"
  by (simp add: sort_desc_def)

lemma sort_desc_sorted: "sorted_wrt (\<lambda>p q. pfx_bits q \<le> pfx_bits p) (sort_desc ps)"
proof -
  have "sorted (map (\<lambda>p. - int (pfx_bits p)) (sort_desc ps))"
    by (simp add: sort_desc_def)
  then show ?thesis by (simp add: sorted_map)
qed

lemma classifier_New_Inr:
  assumes "classifier_New rf path fs = Inr c"
  obtains data lines where "fs path = Some data" "scan_lines data = (lines, False)" "\<not> rf"
    "set (iranRanges4 c) = {p. \<exists>l \<in> set lines. range_line l p \<and> Is4 (pfx_addr p)}"
    "set (iranRanges6 c) = {p. \<exists>l \<in> set lines. range_line l p \<and> \<not> Is4 (pfx_addr p)}"
    "iranRanges4 c \<noteq> [] \<or> iranRanges6 c \<noteq> []"
proof -
  obtain data where d: "fs path = Some data"
    using assms by (auto simp: classifier_New_def split: option.splits)
  obtain lines tl where l: "scan_lines data = (lines, tl)" by (cases "scan_lines data")
  let ?c = "load_ranges lines \<lparr>iranRanges4 = [], iranRanges6 = []\<rparr>"
  have tl: "\<not> tl" "\<not> rf"
    and c: "c = \<lparr>iranRanges4 = sort_desc (iranRanges4 ?c), iranRanges6 = sort_desc (iranRanges6 ?c)\<rparr>"
    and ne: "\<not> (iranRanges4 ?c = [] \<and> iranRanges6 ?c = [])"
    using assms d l by (auto simp: classifier_New_def Let_def split: if_splits)
  have "iranRanges4 c \<noteq> [] \<or> iranRanges6 c \<noteq> []"
    using ne c by (metis classifier.select_convs set_empty set_sort_desc)
  then show ?thesis
    using that d l tl c by (simp add: load_ranges4 load_ranges6)
qed

text \<open>
  C13. Loading and lookup together: when the ranges file loads, \<open>IsIran\<close> answers true exactly for
  the strings that parse to an address contained in the CIDR of some line that is not empty and
  not a comment.
\<close>

theorem classifier_IsIran_correct:
  assumes "classifier_New rf path fs = Inr c"
  shows "classifier_IsIran c s \<longleftrightarrow>
     (\<exists>data line p ip. fs path = Some data \<and> line \<in> set (fst (scan_lines data))
        \<and> range_line line p \<and> ParseAddr s = Some ip \<and> Contains p ip)"
proof -
  obtain data lines where *: "fs path = Some data" "scan_lines data = (lines, False)"
    "set (iranRanges4 c) = {p. \<exists>l \<in> set lines. range_line l p \<and> Is4 (pfx_addr p)}"
    "set (iranRanges6 c) = {p. \<exists>l \<in> set lines. range_line l p \<and> \<not> Is4 (pfx_addr p)}"
    by (rule classifier_New_Inr [OF assms])
  show ?thesis
  proof (cases "ParseAddr s")
    case None
    then show ?thesis by (simp add: classifier_IsIran_def)
  next
    case (Some ip)
    have "classifier_IsIran c s \<longleftrightarrow>
        (\<exists>p. p \<in> set (if Is4 ip then iranRanges4 c else iranRanges6 c) \<and> Contains p ip)"
      by (simp add: classifier_IsIran_def Some list_ex_iff Bex_def)
    also have "\<dots> \<longleftrightarrow> (\<exists>p. (\<exists>l \<in> set lines. range_line l p) \<and> Contains p ip)"
      using Contains_same_family by (cases "Is4 ip") (simp_all add: *(3,4), blast+)
    finally show ?thesis using * Some by auto
  qed
qed

text \<open>
  \<open>Reload\<close> is all or nothing: an error (missing file, read error, line too long, no valid
  range) leaves every range as it was, and success replaces both lists by what a fresh load gives,
  each ordered from the longest prefix to the shortest.
\<close>

theorem Reload_all_or_nothing:
  "case Reload rf path fs c of
     (Some e, c') \<Rightarrow> c' = c \<and> classifier_New rf path fs = Inl e
   | (None, c') \<Rightarrow> classifier_New rf path fs = Inr c'
        \<and> sorted_wrt (\<lambda>p q. pfx_bits q \<le> pfx_bits p) (iranRanges4 c')
        \<and> sorted_wrt (\<lambda>p q. pfx_bits q \<le> pfx_bits p) (iranRanges6 c')"
  by (auto simp: Reload_def classifier_New_def Let_def sort_desc_sorted
      split: sum.splits option.splits prod.splits if_splits)

text \<open>An address record is Iranian when its four bytes lie in a loaded IPv4 range.\<close>

lemma classifier_IsIran_IP4:
  assumes "To4 ip = Some q"
  shows "classifier_IsIran c (IP_String ip) \<longleftrightarrow>
     (\<exists>p \<in> set (iranRanges4 c). Contains p (V4 (of_int (bytes_int (map uint q)))))"
  using IP_String_parses4 [OF assms] by (simp add: classifier_IsIran_def list_ex_iff)

section \<open>Witness\<close>

definition sample_ranges :: fs where
  "sample_ranges = [''r'' \<mapsto> line_text [''# iran'', ''5.22.0.0/17'', ''2.144.0.0/14'']]"

theorem classifier_IsIran_correct_witness:
  "\<exists>c. classifier_New False ''r'' sample_ranges = Inr c
     \<and> classifier_IsIran c ''5.22.0.1'' \<and> \<not> classifier_IsIran c ''8.8.8.8''"
proof -
  have "\<not> (case classifier_New False ''r'' sample_ranges of Inl e \<Rightarrow> True | Inr c \<Rightarrow>
      \<not> (classifier_IsIran c ''5.22.0.1'' \<and> \<not> classifier_IsIran c ''8.8.8.8''))"
    by code_simp
  then obtain c where c: "classifier_New False ''r'' sample_ranges = Inr c"
    and r: "classifier_IsIran c ''5.22.0.1'' \<and> \<not> classifier_IsIran c ''8.8.8.8''"
    by (auto split: sum.splits)
  from classifier_IsIran_correct [OF c, of "''5.22.0.1''"] c r show ?thesis by blast
qed

end
