(* ===== verification/Go_Text.thy ===== *)
theory Go_Text
  imports Net_Addr Complex_Main
begin

text \<open>
  The parts of Go's \<open>strconv\<close> and \<open>fmt\<close> with which the program prints numbers: \<open>%d\<close>, \<open>%.6f\<close>,
  \<open>%.1f\<close>, and \<open>strings.TrimRight\<close>. Floating-point numbers are rationals here; \<open>%.6f\<close> rounds to the
  nearest multiple of a millionth, to the even one when there are two.
\<close>

section \<open>Integers\<close>

function udec :: "int \<Rightarrow> string" where
  "udec n = (if n < 10 then [digit_char n] else udec (n div 10) @ [digit_char (n mod 10)])"
  by pat_completeness auto
termination by (relation "measure nat") auto

declare udec.simps [simp del]

definition Itoa :: "int \<Rightarrow> string" where
  "Itoa n = (if n < 0 then CHR ''-'' # udec (- n) else udec n)"

lemma digits_val_append: "digits_val a (xs @ ys) = (case digits_val a xs of None \<Rightarrow> None | Some b \<Rightarrow> digits_val b ys)"
  by (induction a xs rule: digits_val.induct) (auto split: option.splits)

lemma digits_val_udec: "0 \<le> n \<Longrightarrow> digits_val 0 (udec n) = Some n"
proof (induction n rule: udec.induct)
  case (1 n)
  then show ?case by (cases "n < 10") (simp_all add: udec.simps [of n] digits_val_append)
qed

lemma udec_digits: "0 \<le> n \<Longrightarrow> udec n \<noteq> [] \<and> list_all (\<lambda>c. \<exists>d. 0 \<le> d \<and> d < 10 \<and> c = digit_char d) (udec n)"
proof (induction n rule: udec.induct)
  case (1 n)
  have m: "\<exists>d. 0 \<le> d \<and> d < 10 \<and> digit_char (n mod 10) = digit_char d"
    by (intro exI [of _ "n mod 10"]) simp
  have l: "\<exists>d. 0 \<le> d \<and> d < 10 \<and> digit_char n = digit_char d" if "n < 10"
    using that 1(2) by (intro exI [of _ n]) simp
  show ?case using 1 m l by (cases "n < 10") (simp_all add: udec.simps [of n])
qed

text \<open>No leading zero, as in JSON.\<close>

lemma udec_hd: "1 \<le> n \<Longrightarrow> hd (udec n) \<noteq> CHR ''0''"
proof (induction n rule: udec.induct)
  case (1 n)
  show ?case
  proof (cases "n < 10")
    case True
    have "digit_char n \<noteq> CHR ''0''"
    proof
      assume e: "digit_char n = CHR ''0''"
      have "(of_char (digit_char n) :: int) = 48 + n" using 1(2) True by (simp add: of_char_digit)
      then show False unfolding e using 1(2) by simp
    qed
    then show ?thesis using True by (simp add: udec.simps [of n])
  next
    case False
    have "udec (n div 10) \<noteq> []" using udec_digits [of "n div 10"] 1(2) by simp
    then show ?thesis using 1(1) False by (simp add: udec.simps [of n])
  qed
qed

lemma digit_char_range: "0 \<le> d \<Longrightarrow> d < 10 \<Longrightarrow> digit_val (digit_char d) \<noteq> None"
  by simp

lemma udec_hd_digit: "0 \<le> n \<Longrightarrow> \<exists>d. 0 \<le> d \<and> d < 10 \<and> hd (udec n) = digit_char d"
  using udec_digits [of n] by (cases "udec n") auto

lemma digit_char_not_sign: "0 \<le> d \<Longrightarrow> d < 10 \<Longrightarrow> digit_char d \<noteq> CHR ''-'' \<and> digit_char d \<noteq> CHR ''+''"
  using digit_val_digit_char [of d] by (auto simp: digit_val_def)

text \<open>Printed integers read back.\<close>

lemma Atoi_Itoa:
  assumes "- (2 ^ 63) \<le> n" "n < 2 ^ 63"
  shows "Atoi (Itoa n) = Some n"
proof (cases "n < 0")
  case True
  then show ?thesis
    using assms udec_digits [of "- n"] digits_val_udec [of "- n"] by (simp add: Atoi_def Itoa_def)
next
  case False
  then obtain d where "0 \<le> d" "d < 10" "hd (udec n) = digit_char d" using udec_hd_digit [of n] by auto
  then show ?thesis
    using False assms udec_digits [of n] digits_val_udec [of n] digit_char_not_sign [of d]
    by (simp add: Atoi_def Itoa_def)
qed

section \<open>Fixed-point numbers\<close>

definition round_half_even :: "rat \<Rightarrow> int" where
  "round_half_even q = (let f = \<lfloor>q\<rfloor>; r = q - of_int f
     in if r < 1 / 2 then f else if r > 1 / 2 then f + 1 else if even f then f else f + 1)"

definition pad :: "nat \<Rightarrow> string \<Rightarrow> string" where
  "pad w s = replicate (w - length s) (CHR ''0'') @ s"

text \<open>\<open>fmt.Sprintf\<close> with \<open>%.kf\<close>.\<close>

definition fixed :: "nat \<Rightarrow> rat \<Rightarrow> string" where
  "fixed k v = (let n = round_half_even (\<bar>v\<bar> * 10 ^ k)
     in (if v < 0 then [CHR ''-''] else []) @ udec (n div 10 ^ k) @ DOT # pad k (udec (n mod 10 ^ k)))"

definition TrimRight :: "string \<Rightarrow> char \<Rightarrow> string" where
  "TrimRight s c = rev (dropWhile (\<lambda>x. x = c) (rev s))"

text \<open>The value a decimal text stands for.\<close>

definition is_digit :: "char \<Rightarrow> bool" where
  "is_digit c \<longleftrightarrow> digit_val c \<noteq> None"

definition read_dec :: "string \<Rightarrow> rat option" where
  "read_dec s =
     (let a = takeWhile is_digit s; r = dropWhile is_digit s
      in case digits_val 0 a of None \<Rightarrow> None
         | Some n \<Rightarrow> if r = [] then Some (of_int n)
             else if hd r \<noteq> DOT then None
             else case digits_val 0 (tl r) of None \<Rightarrow> None
                  | Some f \<Rightarrow> Some (of_int n + of_int f / 10 ^ length (tl r)))"

lemma round_half_even_near: "\<bar>of_int (round_half_even q) - q\<bar> \<le> 1 / 2"
proof -
  have "of_int \<lfloor>q\<rfloor> \<le> q" "q < of_int \<lfloor>q\<rfloor> + 1" by linarith+
  then show ?thesis by (auto simp: round_half_even_def Let_def)
qed

lemma round_half_even_of_int [simp]: "round_half_even (of_int n) = n"
  by (simp add: round_half_even_def)

lemma round_half_even_nonneg: "0 \<le> q \<Longrightarrow> 0 \<le> round_half_even q"
  by (simp add: round_half_even_def Let_def)

lemma udec_is_digit: "0 \<le> n \<Longrightarrow> c \<in> set (udec n) \<Longrightarrow> is_digit c"
  using udec_digits [of n] by (auto simp: list_all_iff is_digit_def)

lemma udec_length: "0 \<le> n \<Longrightarrow> n < 10 ^ k \<Longrightarrow> 0 < k \<Longrightarrow> length (udec n) \<le> k"
proof (induction n arbitrary: k rule: udec.induct)
  case (1 n)
  show ?case
  proof (cases "n < 10")
    case True
    then show ?thesis using 1(4) by (simp add: udec.simps [of n])
  next
    case False
    then obtain j where j: "k = Suc j" "0 < j" using 1(3,4) by (cases k; cases "k - 1") auto
    then have "length (udec (n div 10)) \<le> j" using 1 False by simp
    then show ?thesis using False j by (simp add: udec.simps [of n])
  qed
qed

lemma zero_digit: "digit_val (CHR ''0'') = Some 0"
  by (simp add: digit_val_def)

lemma digits_val_zeros: "digits_val 0 (replicate k (CHR ''0'') @ s) = digits_val 0 s"
  by (induction k) (simp_all add: zero_digit)

lemma digits_val_shift: "digits_val a s = Some n \<Longrightarrow> digits_val a (s @ replicate k (CHR ''0'')) = Some (n * 10 ^ k)"
proof (induction k arbitrary: s n)
  case (Suc k)
  have "digits_val a (s @ [CHR ''0'']) = Some (n * 10)" using Suc(2) by (simp add: digits_val_append zero_digit)
  from Suc(1) [OF this] show ?case by (simp add: replicate_app_Cons_same)
qed simp

lemma digits_val_all: "(\<And>c. c \<in> set s \<Longrightarrow> is_digit c) \<Longrightarrow> digits_val a s \<noteq> None"
  by (induction a s rule: digits_val.induct) (auto simp: is_digit_def split: option.splits)

lemma TrimRight_split: "\<exists>k. s = TrimRight s c @ replicate k c"
proof -
  let ?t = "takeWhile (\<lambda>x. x = c) (rev s)"
  have "rev s = ?t @ dropWhile (\<lambda>x. x = c) (rev s)" by simp
  then have "s = TrimRight s c @ rev ?t" by (metis TrimRight_def rev_append rev_rev_ident)
  moreover have "rev ?t = replicate (length ?t) c"
    by (metis (mono_tags, lifting) length_rev replicate_eqI set_rev set_takeWhileD)
  ultimately show ?thesis by metis
qed

lemma TrimRight_last: "TrimRight s c \<noteq> [] \<Longrightarrow> last (TrimRight s c) \<noteq> c"
  by (metis (mono_tags, lifting) TrimRight_def hd_dropWhile last_rev rev_is_Nil_conv)

lemma TrimRight_id: "s \<noteq> [] \<Longrightarrow> last s \<noteq> c \<Longrightarrow> TrimRight s c = s"
  by (cases s rule: rev_cases) (auto simp: TrimRight_def)

lemma TrimRight_snoc [simp]: "TrimRight (s @ [c]) c = TrimRight s c"
  by (simp add: TrimRight_def)

end
