(* ===== verification/Go_Json.thy ===== *)
theory Go_Json
  imports Go_Text
begin

text \<open>
  What the program uses of \<open>encoding/json\<close>: the text \<open>Marshal\<close> makes of a flat struct, and the parser
  behind \<open>Unmarshal\<close>. Strings are bytes; a byte of 128 or more is copied both ways, which is what the
  package does with valid UTF-8. The parser takes any document; the nesting limit of 10000 is not
  modelled. Its fuel is twice the length of the text plus one: every second call of a parser consumes at
  least one byte, and more fuel never changes the result (\<open>parser_fuel\<close>).
\<close>

section \<open>Printing\<close>

datatype scalar = SInt int | SBool bool | SStr string

abbreviation QUOTE :: char where "QUOTE \<equiv> CHR 0x22"
abbreviation BSLASH :: char where "BSLASH \<equiv> CHR 0x5C"

definition esc_hex :: "char \<Rightarrow> string" where
  "esc_hex c = (let n = (of_char c :: int) in BSLASH # CHR ''u'' # CHR ''0'' # CHR ''0'' # [hex_char (n div 16), hex_char (n mod 16)])"

definition esc_char :: "char \<Rightarrow> string" where
  "esc_char c =
     (if c = QUOTE \<or> c = BSLASH then [BSLASH, c]
      else if c = CHR 0x08 then [BSLASH, CHR ''b''] else if c = CHR 0x0C then [BSLASH, CHR ''f'']
      else if c = NL then [BSLASH, CHR ''n''] else if c = CR then [BSLASH, CHR ''r'']
      else if c = CHR 0x09 then [BSLASH, CHR ''t'']
      else if (of_char c :: int) < 32 \<or> c = CHR ''<'' \<or> c = CHR ''>'' \<or> c = CHR ''&'' then esc_hex c
      else [c])"

definition quote_str :: "string \<Rightarrow> string" where
  "quote_str s = QUOTE # concat (map esc_char s) @ [QUOTE]"

fun print_scalar :: "scalar \<Rightarrow> string" where
  "print_scalar (SInt n) = Itoa n"
| "print_scalar (SBool b) = (if b then ''true'' else ''false'')"
| "print_scalar (SStr s) = quote_str s"

fun print_fields :: "(string \<times> scalar) list \<Rightarrow> string" where
  "print_fields [] = []"
| "print_fields [(k, v)] = quote_str k @ COLON # print_scalar v"
| "print_fields ((k, v) # f # fs) = quote_str k @ COLON # print_scalar v @ CHR '','' # print_fields (f # fs)"

definition print_object :: "(string \<times> scalar) list \<Rightarrow> string" where
  "print_object fs = CHR ''{'' # print_fields fs @ [CHR ''}'']"

section \<open>Parsing\<close>

datatype jval = JNull | JBool bool | JNum string | JStr string | JArr "jval list" | JObj "(string \<times> jval) list"

definition skip_ws :: "string \<Rightarrow> string" where
  "skip_ws s = dropWhile (\<lambda>c. c = CHR '' '' \<or> c = CHR 0x09 \<or> c = CR \<or> c = NL) s"

text \<open>UTF-8 of a code point.\<close>

definition utf8 :: "int \<Rightarrow> string" where
  "utf8 u =
     (if u < 0x80 then [char_of u]
      else if u < 0x800 then [char_of (0xC0 + u div 64), char_of (0x80 + u mod 64)]
      else if u < 0x10000 then [char_of (0xE0 + u div 4096), char_of (0x80 + u div 64 mod 64), char_of (0x80 + u mod 64)]
      else [char_of (0xF0 + u div 262144), char_of (0x80 + u div 4096 mod 64), char_of (0x80 + u div 64 mod 64),
            char_of (0x80 + u mod 64)])"

fun hex4 :: "string \<Rightarrow> (int \<times> string) option" where
  "hex4 (a # b # c # d # s) =
     (case (hex_val a, hex_val b, hex_val c, hex_val d) of
        (Some w, Some x, Some y, Some z) \<Rightarrow> Some (((w * 16 + x) * 16 + y) * 16 + z, s) | _ \<Rightarrow> None)"
| "hex4 _ = None"

text \<open>The second half of a surrogate pair, when there is one.\<close>

definition low_half :: "string \<Rightarrow> (int \<times> string) option" where
  "low_half s = (case s of a # b # t \<Rightarrow> (if a = BSLASH \<and> b = CHR ''u'' then
       (case hex4 t of Some (v, t') \<Rightarrow> if 0xDC00 \<le> v \<and> v < 0xE000 then Some (v, t') else None | None \<Rightarrow> None)
     else None) | _ \<Rightarrow> None)"

definition simple_esc :: "char \<Rightarrow> char option" where
  "simple_esc e =
     (if e = QUOTE \<or> e = BSLASH \<or> e = CHR ''/'' then Some e
      else if e = CHR ''b'' then Some (CHR 0x08) else if e = CHR ''f'' then Some (CHR 0x0C)
      else if e = CHR ''n'' then Some NL else if e = CHR ''r'' then Some CR
      else if e = CHR ''t'' then Some (CHR 0x09) else None)"

text \<open>One escape, after its backslash: the bytes it stands for and the rest.\<close>

definition json_esc :: "string \<Rightarrow> (string \<times> string) option" where
  "json_esc s =
     (case s of [] \<Rightarrow> None
      | e # t \<Rightarrow>
         (case simple_esc e of Some d \<Rightarrow> Some ([d], t)
          | None \<Rightarrow>
             if e \<noteq> CHR ''u'' then None
             else case hex4 t of None \<Rightarrow> None
             | Some (u, t1) \<Rightarrow>
                 if u < 0xD800 \<or> 0xE000 \<le> u then Some (utf8 u, t1)
                 else case (if u < 0xDC00 then low_half t1 else None) of
                     Some (v, t2) \<Rightarrow> Some (utf8 (0x10000 + (u - 0xD800) * 1024 + (v - 0xDC00)), t2)
                   | None \<Rightarrow> Some (utf8 0xFFFD, t1)))"

lemma hex4_shorter: "hex4 s = Some (u, t) \<Longrightarrow> length t < length s"
  by (induction s rule: hex4.induct) (auto split: option.splits)

lemma json_esc_shorter: "json_esc s = Some (d, t) \<Longrightarrow> length t < length s"
  by (auto simp: json_esc_def low_half_def dest!: hex4_shorter split: list.splits option.splits if_splits prod.splits)

text \<open>A string, after its opening quote.\<close>

function json_str :: "string \<Rightarrow> (string \<times> string) option" where
  "json_str s =
     (case s of [] \<Rightarrow> None
      | c # t \<Rightarrow>
         if c = QUOTE then Some ([], t)
         else if c = BSLASH then
           (case json_esc t of None \<Rightarrow> None
            | Some (d, u) \<Rightarrow> (case json_str u of None \<Rightarrow> None | Some (x, r) \<Rightarrow> Some (d @ x, r)))
         else if (of_char c :: int) < 32 then None
         else (case json_str t of None \<Rightarrow> None | Some (x, r) \<Rightarrow> Some (c # x, r)))"
  by pat_completeness auto
termination by (relation "measure length") (auto dest: json_esc_shorter)

declare json_str.simps [simp del]

definition json_frac :: "string \<Rightarrow> (string \<times> string) option" where
  "json_frac s = (case s of [] \<Rightarrow> Some ([], s)
     | c # t \<Rightarrow> if c = DOT then (if takeWhile is_digit t = [] then None
                                  else Some (c # takeWhile is_digit t, dropWhile is_digit t))
               else Some ([], s))"

definition json_exp :: "string \<Rightarrow> (string \<times> string) option" where
  "json_exp s = (case s of [] \<Rightarrow> Some ([], s)
     | c # t \<Rightarrow> if c = CHR ''e'' \<or> c = CHR ''E'' then
         (let sg = (if t \<noteq> [] \<and> (hd t = CHR ''+'' \<or> hd t = CHR ''-'') then [hd t] else []);
              u = (if sg = [] then t else tl t)
          in if takeWhile is_digit u = [] then None else Some (c # sg @ takeWhile is_digit u, dropWhile is_digit u))
       else Some ([], s))"

definition json_num :: "string \<Rightarrow> (string \<times> string) option" where
  "json_num s =
     (let neg = (s \<noteq> [] \<and> hd s = CHR ''-''); t = (if neg then tl s else s);
          ip = takeWhile is_digit t; r = dropWhile is_digit t
      in if ip = [] \<or> (hd ip = CHR ''0'' \<and> tl ip \<noteq> []) then None
         else case json_frac r of None \<Rightarrow> None
         | Some (f, r1) \<Rightarrow> (case json_exp r1 of None \<Rightarrow> None
             | Some (e, r2) \<Rightarrow> Some ((if neg then [CHR ''-''] else []) @ ip @ f @ e, r2)))"

definition lit :: "string \<Rightarrow> jval \<Rightarrow> string \<Rightarrow> (jval \<times> string) option" where
  "lit w v s = (if take (length w) s = w then Some (v, drop (length w) s) else None)"

text \<open>A value; the members of an object; the elements of an array. Each takes the text behind the
  bracket and consumes the closing one.\<close>

fun jv :: "nat \<Rightarrow> string \<Rightarrow> (jval \<times> string) option"
and jm :: "nat \<Rightarrow> string \<Rightarrow> ((string \<times> jval) list \<times> string) option"
and je :: "nat \<Rightarrow> string \<Rightarrow> (jval list \<times> string) option" where
  "jv 0 s = None"
| "jv (Suc n) s =
     (case skip_ws s of [] \<Rightarrow> None
      | c # r \<Rightarrow>
         if c = CHR ''{'' then
           (case skip_ws r of [] \<Rightarrow> None
            | d # t \<Rightarrow> if d = CHR ''}'' then Some (JObj [], t)
                       else map_option (\<lambda>(ms, t). (JObj ms, t)) (jm n r))
         else if c = CHR ''['' then
           (case skip_ws r of [] \<Rightarrow> None
            | d # t \<Rightarrow> if d = CHR '']'' then Some (JArr [], t)
                       else map_option (\<lambda>(es, t). (JArr es, t)) (je n r))
         else if c = QUOTE then map_option (\<lambda>(x, t). (JStr x, t)) (json_str r)
         else if c = CHR ''t'' then lit ''true'' (JBool True) (c # r)
         else if c = CHR ''f'' then lit ''false'' (JBool False) (c # r)
         else if c = CHR ''n'' then lit ''null'' JNull (c # r)
         else map_option (\<lambda>(x, t). (JNum x, t)) (json_num (c # r)))"
| "jm 0 s = None"
| "jm (Suc n) s =
     (case skip_ws s of [] \<Rightarrow> None
      | c # r \<Rightarrow>
         if c \<noteq> QUOTE then None
         else case json_str r of None \<Rightarrow> None
         | Some (k, t) \<Rightarrow>
             (case skip_ws t of [] \<Rightarrow> None
              | d # u \<Rightarrow>
                 if d \<noteq> COLON then None
                 else case jv n u of None \<Rightarrow> None
                 | Some (v, w) \<Rightarrow>
                     (case skip_ws w of [] \<Rightarrow> None
                      | e # x \<Rightarrow>
                         if e = CHR '','' then map_option (\<lambda>(ms, y). ((k, v) # ms, y)) (jm n x)
                         else if e = CHR ''}'' then Some ([(k, v)], x) else None)))"
| "je 0 s = None"
| "je (Suc n) s =
     (case jv n s of None \<Rightarrow> None
      | Some (v, w) \<Rightarrow>
          (case skip_ws w of [] \<Rightarrow> None
           | e # x \<Rightarrow>
              if e = CHR '','' then map_option (\<lambda>(es, y). (v # es, y)) (je n x)
              else if e = CHR '']'' then Some ([v], x) else None))"

definition json_parse :: "string \<Rightarrow> jval option" where
  "json_parse s =
     (case jv (2 * length s + 1) s of None \<Rightarrow> None
      | Some (v, r) \<Rightarrow> if skip_ws r = [] then Some v else None)"

section \<open>The fuel is enough\<close>

lemma skip_ws_shorter: "skip_ws s = c # r \<Longrightarrow> length r < length s"
proof -
  assume "skip_ws s = c # r"
  moreover have "length (skip_ws s) \<le> length s" unfolding skip_ws_def by (rule length_dropWhile_le)
  ultimately show ?thesis by simp
qed

lemma json_str_shorter: "json_str s = Some (x, t) \<Longrightarrow> length t < length s"
proof (induction "length s" arbitrary: s x rule: less_induct)
  case less
  obtain c v where s: "s = c # v" using less(2) json_str.simps [of s] by (cases s) auto
  consider "t = v" | u y where "length u \<le> length v" "json_str u = Some (y, t)"
    using less(2) json_str.simps [of "c # v"] unfolding s
    by (fastforce split: if_splits option.splits dest: json_esc_shorter less_imp_le)
  then show ?case
  proof cases
    case 2
    then show ?thesis using less(1) [of u y] s by simp
  qed (simp add: s)
qed

lemma json_num_shorter: "json_num s = Some (x, t) \<Longrightarrow> length t < length s"
proof -
  assume a: "json_num s = Some (x, t)"
  define u where "u = (if s \<noteq> [] \<and> hd s = CHR ''-'' then tl s else s)"
  have fr: "json_frac r = Some (f, r1) \<Longrightarrow> length r1 \<le> length r" for r f r1
    using length_dropWhile_le by (auto simp: json_frac_def le_Suc_eq split: list.splits if_splits)
  have dw: "length (dropWhile is_digit v) \<le> Suc (length v)" "length (dropWhile is_digit (tl v)) \<le> Suc (length v)" for v
    using length_dropWhile_le [of is_digit v] length_dropWhile_le [of is_digit "tl v"] by auto
  have ex: "json_exp r = Some (f, r1) \<Longrightarrow> length r1 \<le> length r" for r f r1
    using dw by (auto simp: json_exp_def Let_def split: list.splits if_splits)
  have "length (takeWhile is_digit u @ dropWhile is_digit u) \<le> length s" by (simp add: u_def)
  moreover have "takeWhile is_digit u \<noteq> []" "\<exists>f r1 e. json_frac (dropWhile is_digit u) = Some (f, r1) \<and> json_exp r1 = Some (e, t)"
    using a by (auto simp: json_num_def Let_def u_def split: option.splits if_splits)
  moreover from this(2) have "length t \<le> length (dropWhile is_digit u)" using fr ex order_trans by blast
  ultimately show ?thesis
    by (metis (no_types) add_less_cancel_right length_append length_greater_0_conv less_le_trans not_le add_0 le_less_trans)
qed

lemma lit_shorter: "lit w v s = Some (x, t) \<Longrightarrow> w \<noteq> [] \<Longrightarrow> length t < length s"
  by (auto simp: lit_def split: if_splits) (metis diff_less length_drop length_greater_0_conv take_eq_Nil2)

lemma parser_shorter:
  "(\<forall>s v t. jv n s = Some (v, t) \<longrightarrow> length t < length s)
   \<and> (\<forall>s v t. jm n s = Some (v, t) \<longrightarrow> length t < length s)
   \<and> (\<forall>s v t. je n s = Some (v, t) \<longrightarrow> length t < length s)"
proof (induction n)
  case (Suc n)
  have "length t < length s" if "jv (Suc n) s = Some (v, t)" for s v t
  proof (cases "skip_ws s")
    case (Cons c r)
    note sh = skip_ws_shorter [OF Cons]
    have sw: "length (c # r) \<le> length s" using sh by simp
    have "length t < length (c # r) \<or> length t < length r \<or> (\<exists>d. skip_ws r = d # t)"
      using that Cons Suc
      by (auto split: if_splits list.splits dest: json_str_shorter json_num_shorter lit_shorter)
    then show ?thesis using sw sh skip_ws_shorter by fastforce
  qed (use that in simp)
  moreover have "length t < length s" if a: "jm (Suc n) s = Some (v, t)" for s v t
  proof -
    obtain c r k t1 d u x w e z where p: "skip_ws s = c # r" "json_str r = Some (k, t1)" "skip_ws t1 = d # u"
      "jv n u = Some (x, w)" "skip_ws w = e # z" "t = z \<or> (\<exists>ms. jm n z = Some (ms, t))"
      using a by (auto split: list.splits if_splits option.splits)
    have "length w < length u" using Suc p(4) by blast
    moreover have "length t \<le> length z" using Suc p(6) less_imp_le by blast
    ultimately show ?thesis
      using skip_ws_shorter [OF p(1)] json_str_shorter [OF p(2)] skip_ws_shorter [OF p(3)] skip_ws_shorter [OF p(5)]
      by linarith
  qed
  moreover have "length t < length s" if a: "je (Suc n) s = Some (v, t)" for s v t
  proof -
    obtain x w e z where p: "jv n s = Some (x, w)" "skip_ws w = e # z" "t = z \<or> (\<exists>es. je n z = Some (es, t))"
      using a by (auto split: list.splits if_splits option.splits)
    have "length w < length s" using Suc p(1) by blast
    moreover have "length t \<le> length z" using Suc p(3) less_imp_le by blast
    ultimately show ?thesis using skip_ws_shorter [OF p(2)] by linarith
  qed
  ultimately show ?case by blast
qed simp_all

text \<open>With fuel for twice the length, more fuel changes nothing.\<close>

lemma parser_fuel:
  "(\<forall>s. 2 * length s < n \<longrightarrow> jv (Suc n) s = jv n s) \<and> (\<forall>s. 2 * length s < n \<longrightarrow> jm (Suc n) s = jm n s)
   \<and> (\<forall>s. 2 * length s + 1 < n \<longrightarrow> je (Suc n) s = je n s)"
proof (induction n)
  case (Suc n)
  have sh: "length t < length s" if "jv m s = Some (v, t)" for m s v t using that parser_shorter by blast
  have "jv (Suc (Suc n)) s = jv (Suc n) s" if "2 * length s < Suc n" for s
  proof (cases "skip_ws s")
    case (Cons c r)
    have e: "jm (Suc n) r = jm n r" "je (Suc n) r = je n r" using Suc that skip_ws_shorter [OF Cons] by auto
    show ?thesis unfolding jv.simps(2) [of "Suc n"] jv.simps(2) [of n] Cons list.case e ..
  qed simp
  moreover have "jm (Suc (Suc n)) s = jm (Suc n) s" if "2 * length s < Suc n" for s
  proof -
    have "jv (Suc n) u = jv n u" if "skip_ws s = c # r" "json_str r = Some (k, t1)" "skip_ws t1 = d # u" for c r k t1 d u
      using Suc \<open>2 * length s < Suc n\<close> skip_ws_shorter [OF that(1)] json_str_shorter [OF that(2)] skip_ws_shorter [OF that(3)]
      by auto
    moreover have "jm (Suc n) z = jm n z" if "skip_ws s = c # r" "json_str r = Some (k, t1)" "skip_ws t1 = d # u"
      "jv n u = Some (x, w)" "skip_ws w = e # z" for c r k t1 d u x w e z
      using Suc \<open>2 * length s < Suc n\<close> skip_ws_shorter [OF that(1)] json_str_shorter [OF that(2)] skip_ws_shorter [OF that(3)]
        sh [OF that(4)] skip_ws_shorter [OF that(5)] by auto
    ultimately show ?thesis
      unfolding jm.simps(2) [of "Suc n"] jm.simps(2) [of n] by (auto simp del: jv.simps jm.simps split: list.splits option.splits)
  qed
  moreover have "je (Suc (Suc n)) s = je (Suc n) s" if "2 * length s + 1 < Suc n" for s
  proof -
    have "jv (Suc n) s = jv n s" using Suc that by simp
    moreover have "je (Suc n) z = je n z" if "jv n s = Some (x, w)" "skip_ws w = e # z" for x w e z
      using Suc \<open>2 * length s + 1 < Suc n\<close> sh [OF that(1)] skip_ws_shorter [OF that(2)] by auto
    ultimately show ?thesis
      unfolding je.simps(2) [of "Suc n"] je.simps(2) [of n] by (auto simp del: jv.simps je.simps split: list.splits option.splits)
  qed
  ultimately show ?case by blast
qed simp_all

section \<open>Printed objects parse back\<close>

fun to_jval :: "scalar \<Rightarrow> jval" where
  "to_jval (SInt n) = JNum (Itoa n)"
| "to_jval (SBool b) = JBool b"
| "to_jval (SStr s) = JStr s"

lemma hex_val_hex_char: "0 \<le> d \<Longrightarrow> d < 16 \<Longrightarrow> hex_val (hex_char d) = Some d"
  by (simp add: hex_val_def hex_char_def Let_def)

lemma json_esc_hex:
  assumes "(of_char c :: int) < 128"
  shows "json_esc (tl (esc_hex c) @ r) = Some ([c], r)"
proof -
  let ?n = "of_char c :: int"
  have n: "0 \<le> ?n" by simp
  have z: "hex_val (CHR ''0'') = Some 0" by (simp add: hex_val_def)
  have "0 \<le> ?n div 16 \<and> ?n div 16 < 16" using assms pos_imp_zdiv_nonneg_iff [of 16 ?n] n by simp
  then have "hex_val (hex_char (?n div 16)) = Some (?n div 16)" "hex_val (hex_char (?n mod 16)) = Some (?n mod 16)"
    using hex_val_hex_char by simp_all
  then have "hex4 (tl (tl (esc_hex c)) @ r) = Some (?n, r)" by (simp add: esc_hex_def Let_def z)
  moreover have e: "tl (esc_hex c) @ r = CHR ''u'' # tl (tl (esc_hex c)) @ r" by (simp add: esc_hex_def Let_def)
  moreover have "utf8 ?n = [c]" using assms by (simp add: utf8_def)
  ultimately show ?thesis using assms n unfolding e json_esc_def by (simp add: simple_esc_def)
qed

lemma json_str_esc:
  assumes "(of_char c :: int) < 128"
  shows "json_str (esc_char c @ r) = (case json_str r of None \<Rightarrow> None | Some (x, t) \<Rightarrow> Some (c # x, t))"
proof (cases "esc_char c = [c]")
  case True
  then have "c \<noteq> QUOTE" "c \<noteq> BSLASH" "\<not> (of_char c :: int) < 32"
    by (auto simp: esc_char_def esc_hex_def Let_def split: if_splits)
  then show ?thesis using True by (simp add: json_str.simps [of "c # r"])
next
  case False
  then obtain w where w: "esc_char c = BSLASH # w" "json_esc (w @ r) = Some ([c], r)"
    using json_esc_hex [OF assms, of r]
    by (auto simp: esc_char_def json_esc_def simple_esc_def esc_hex_def Let_def split: if_splits)
  show ?thesis unfolding w(1) by (simp add: json_str.simps [of "BSLASH # w @ r"] w(2) split: option.split)
qed

lemma json_str_quote:
  "is_ascii s \<Longrightarrow> json_str (concat (map esc_char s) @ QUOTE # r) = Some (s, r)"
  by (induction s) (simp_all add: is_ascii_def json_str_esc json_str.simps [of "QUOTE # r"])

lemma skip_ws_id: "c \<noteq> CHR '' '' \<Longrightarrow> c \<noteq> CHR 0x09 \<Longrightarrow> c \<noteq> CR \<Longrightarrow> c \<noteq> NL \<Longrightarrow> skip_ws (c # r) = c # r"
  by (simp add: skip_ws_def)

definition plain_char :: "char \<Rightarrow> bool" where
  "plain_char c \<longleftrightarrow> c \<notin> {CHR '' '', CHR 0x09, CR, NL, CHR ''{'', CHR ''['', QUOTE, CHR ''t'', CHR ''f'', CHR ''n''}"

lemma plain_digit:
  assumes "0 \<le> d" "d < 10"
  shows "plain_char (digit_char d)"
  unfolding plain_char_def
proof
  assume "digit_char d \<in> {CHR '' '', CHR 0x09, CR, NL, CHR ''{'', CHR ''['', QUOTE, CHR ''t'', CHR ''f'', CHR ''n''}"
  then have "(of_char (digit_char d) :: int) \<in> {32, 9, 13, 10, 123, 91, 34, 116, 102, 110}" by auto
  then show False using assms by (simp add: of_char_digit)
qed

text \<open>What follows a printed number: not a digit, and nothing that continues it.\<close>

definition ends_num :: "string \<Rightarrow> bool" where
  "ends_num r \<longleftrightarrow> r \<noteq> [] \<and> \<not> is_digit (hd r) \<and> hd r \<noteq> DOT \<and> hd r \<noteq> CHR ''e'' \<and> hd r \<noteq> CHR ''E''"

lemma json_num_udec:
  assumes "0 \<le> n" "ends_num r"
  shows "takeWhile is_digit (udec n @ r) = udec n" "dropWhile is_digit (udec n @ r) = r"
    "\<not> (hd (udec n) = CHR ''0'' \<and> tl (udec n) \<noteq> [])"
proof -
  have d: "\<And>c. c \<in> set (udec n) \<Longrightarrow> is_digit c"
    using udec_digits [OF assms(1)] by (auto simp: list_all_iff is_digit_def)
  have r: "takeWhile is_digit r = []" "dropWhile is_digit r = r"
    using assms(2) by (cases r; simp add: ends_num_def)+
  show "takeWhile is_digit (udec n @ r) = udec n" "dropWhile is_digit (udec n @ r) = r"
    using d r by (simp_all add: takeWhile_append dropWhile_append)
  show "\<not> (hd (udec n) = CHR ''0'' \<and> tl (udec n) \<noteq> [])"
    using udec_hd [of n] assms(1) by (cases "n = 0") (simp_all add: udec.simps [of 0])
qed

lemma json_num_Itoa:
  assumes "ends_num r"
  shows "json_num (Itoa n @ r) = Some (Itoa n, r)"
proof -
  have e: "json_frac r = Some ([], r)" "json_exp r = Some ([], r)"
    using assms by (cases r; simp add: ends_num_def json_frac_def json_exp_def)+
  show ?thesis
  proof (cases "n < 0")
    case True
    then show ?thesis
      using json_num_udec [of "- n" r] udec_digits [of "- n"] assms e by (simp add: Itoa_def json_num_def Let_def)
  next
    case False
    obtain d where d: "0 \<le> d" "d < 10" "hd (udec n) = digit_char d" using udec_hd_digit [of n] False by auto
    then have "hd (udec n @ r) \<noteq> CHR ''-''" using digit_char_not_sign [of d] udec_digits [of n] False by simp
    then show ?thesis
      using json_num_udec [of n r] udec_digits [of n] assms e False by (simp add: Itoa_def json_num_def Let_def)
  qed
qed

text \<open>What follows a value of a flat object.\<close>

definition ends_value :: "string \<Rightarrow> bool" where
  "ends_value r \<longleftrightarrow> r \<noteq> [] \<and> (hd r = CHR '','' \<or> hd r = CHR ''}'')"

lemma ends_value_num: "ends_value r \<Longrightarrow> ends_num r"
  by (auto simp: ends_value_def ends_num_def is_digit_def digit_val_def)

fun scalar_ok :: "scalar \<Rightarrow> bool" where
  "scalar_ok (SStr s) = is_ascii s" | "scalar_ok _ = True"

lemma Itoa_hd: "\<exists>c w. Itoa n = c # w \<and> plain_char c"
proof (cases "n < 0")
  case False
  then obtain d where "0 \<le> d" "d < 10" "hd (udec n) = digit_char d" using udec_hd_digit [of n] by auto
  moreover obtain c w where "udec n = c # w" using udec_digits [of n] False by (cases "udec n") auto
  ultimately show ?thesis using plain_digit [of d] False by (simp add: Itoa_def)
qed (simp add: Itoa_def plain_char_def)

lemma jv_scalar:
  assumes "scalar_ok v" "ends_value r"
  shows "jv (Suc n) (print_scalar v @ r) = Some (to_jval v, r)"
proof (cases v)
  case (SInt i)
  obtain c w where c: "Itoa i = c # w" "plain_char c"
    using Itoa_hd by blast
  have k: "skip_ws (Itoa i @ r) = c # w @ r" using c by (simp add: skip_ws_id plain_char_def)
  have "json_num (c # w @ r) = Some (Itoa i, r)"
    using json_num_Itoa [OF ends_value_num [OF assms(2)], of i] c(1) by simp
  then show ?thesis using c(2) unfolding SInt print_scalar.simps jv.simps(2) k list.case to_jval.simps plain_char_def by simp
next
  case (SBool b)
  then show ?thesis by (cases b) (simp_all add: skip_ws_id lit_def)
next
  case (SStr s)
  then show ?thesis using assms(1) json_str_quote [of s r] by (simp add: quote_str_def skip_ws_id)
qed

lemma jm_fields:
  assumes "fs \<noteq> []" "list_all (\<lambda>(k, v). is_ascii k \<and> scalar_ok v) fs" "length fs < n"
  shows "jm n (print_fields fs @ CHR ''}'' # r) = Some (map (\<lambda>(k, v). (k, to_jval v)) fs, r)"
  using assms
proof (induction fs arbitrary: n rule: print_fields.induct)
  case (2 k v)
  obtain m where n: "n = Suc (Suc m)" using 2(3) by (cases n; cases "n - 1") auto
  have "ends_value (CHR ''}'' # r)" by (simp add: ends_value_def)
  then show ?case
    using 2 n jv_scalar [of v "CHR ''}'' # r" m] json_str_quote [of k "COLON # print_scalar v @ CHR ''}'' # r"]
    by (simp add: quote_str_def skip_ws_id del: jv.simps)
next
  case (3 k v f fs)
  obtain m where n: "n = Suc (Suc m)" using 3(4) by (cases n; cases "n - 1") auto
  let ?t = "CHR '','' # print_fields (f # fs) @ CHR ''}'' # r"
  have "ends_value ?t" by (simp add: ends_value_def)
  moreover have "jm (Suc m) (print_fields (f # fs) @ CHR ''}'' # r) = Some (map (\<lambda>(k, v). (k, to_jval v)) (f # fs), r)"
    using 3 n by (simp del: jm.simps)
  ultimately show ?case
    using 3(3) n jv_scalar [of v ?t m] json_str_quote [of k "COLON # print_scalar v @ ?t"]
    unfolding n print_fields.simps jm.simps(2) [of "Suc m"]
    by (simp add: quote_str_def skip_ws_id del: jv.simps jm.simps print_fields.simps)
qed simp

lemma print_fields_length: "length fs \<le> length (print_fields fs)"
  by (induction fs rule: print_fields.induct) (auto simp: quote_str_def)

text \<open>The round trip of a flat object; the encoder of a stream ends the text with a newline.\<close>

lemma parse_print_object_ws:
  assumes "list_all (\<lambda>(k, v). is_ascii k \<and> scalar_ok v) fs" "skip_ws w = []"
  shows "json_parse (print_object fs @ w) = Some (JObj (map (\<lambda>(k, v). (k, to_jval v)) fs))"
proof (cases "fs = []")
  case True
  then show ?thesis using assms(2) by (simp add: json_parse_def print_object_def skip_ws_id numeral_eq_Suc)
next
  case False
  let ?n = "2 * length (print_object fs @ w)"
  have "length fs < ?n" using print_fields_length [of fs] by (simp add: print_object_def)
  from jm_fields [OF False assms(1) this, of w]
  have m: "jm ?n (print_fields fs @ CHR ''}'' # w) = Some (map (\<lambda>(k, v). (k, to_jval v)) fs, w)" .
  obtain x where "print_fields fs = QUOTE # x"
    using False by (cases fs rule: print_fields.cases) (auto simp: quote_str_def)
  then have "jv (Suc ?n) (print_object fs @ w) = Some (JObj (map (\<lambda>(k, v). (k, to_jval v)) fs), w)"
    using m by (simp add: print_object_def skip_ws_id del: jm.simps)
  then show ?thesis using assms(2) by (simp add: json_parse_def del: jv.simps)
qed

lemma parse_print_object:
  assumes "list_all (\<lambda>(k, v). is_ascii k \<and> scalar_ok v) fs"
  shows "json_parse (print_object fs) = Some (JObj (map (\<lambda>(k, v). (k, to_jval v)) fs))"
  using parse_print_object_ws [OF assms, of "[]"] by (simp add: skip_ws_def)

end
