(* ===== verification/State_File.thy ===== *)
theory State_File
  imports File_System Go_Json
begin

text \<open>
  Package \<open>internal/state\<close>: the JSON file with the process's metadata, over the model of
  \<open>encoding/json\<close>. A field matches its key in any case of ASCII letters, \<open>null\<close> leaves it alone, a
  value of another kind or a number that is not an \<open>int64\<close> is an error of \<open>Unmarshal\<close>, and unknown
  keys are skipped. \<open>Save\<close> is the list of system calls it makes together with whether it returns an
  error; \<open>Update\<close> holds \<open>updateMu\<close> throughout and is one step.
\<close>

record State =
  st_LastUpdateUnix :: int
  st_LastUpdateSuccess :: bool
  st_LastCleanupUnix :: int
  st_LearnedTodayDate :: string
  st_LearnedTodayCount :: int
  st_LearnedTotalCount :: int
  st_LearnedTotalAtMidnight :: int

definition zero_State :: State where
  "zero_State = \<lparr>st_LastUpdateUnix = 0, st_LastUpdateSuccess = False, st_LastCleanupUnix = 0,
     st_LearnedTodayDate = [], st_LearnedTodayCount = 0, st_LearnedTotalCount = 0, st_LearnedTotalAtMidnight = 0\<rparr>"

definition state_fields :: "State \<Rightarrow> (string \<times> scalar) list" where
  "state_fields s =
     [(''last_update_unix'', SInt (st_LastUpdateUnix s)),
      (''last_update_success'', SBool (st_LastUpdateSuccess s)),
      (''last_cleanup_unix'', SInt (st_LastCleanupUnix s)),
      (''learned_today_date'', SStr (st_LearnedTodayDate s)),
      (''learned_today_count'', SInt (st_LearnedTodayCount s)),
      (''learned_total_count'', SInt (st_LearnedTotalCount s)),
      (''learned_total_at_midnight'', SInt (st_LearnedTotalAtMidnight s))]"

definition Marshal :: "State \<Rightarrow> string" where
  "Marshal s = print_object (state_fields s)"

fun int_field :: "jval \<Rightarrow> (int \<Rightarrow> State \<Rightarrow> State) \<Rightarrow> State \<Rightarrow> State option" where
  "int_field (JNum l) f s = map_option (\<lambda>n. f n s) (Atoi l)"
| "int_field JNull f s = Some s"
| "int_field _ f s = None"

definition set_field :: "string \<Rightarrow> jval \<Rightarrow> State \<Rightarrow> State option" where
  "set_field key v s =
     (let k = ToLower key
      in if k = ''last_update_unix'' then int_field v (\<lambda>n s. s\<lparr>st_LastUpdateUnix := n\<rparr>) s
         else if k = ''last_update_success'' then
           (case v of JBool b \<Rightarrow> Some (s\<lparr>st_LastUpdateSuccess := b\<rparr>) | JNull \<Rightarrow> Some s | _ \<Rightarrow> None)
         else if k = ''last_cleanup_unix'' then int_field v (\<lambda>n s. s\<lparr>st_LastCleanupUnix := n\<rparr>) s
         else if k = ''learned_today_date'' then
           (case v of JStr d \<Rightarrow> Some (s\<lparr>st_LearnedTodayDate := d\<rparr>) | JNull \<Rightarrow> Some s | _ \<Rightarrow> None)
         else if k = ''learned_today_count'' then int_field v (\<lambda>n s. s\<lparr>st_LearnedTodayCount := n\<rparr>) s
         else if k = ''learned_total_count'' then int_field v (\<lambda>n s. s\<lparr>st_LearnedTotalCount := n\<rparr>) s
         else if k = ''learned_total_at_midnight'' then int_field v (\<lambda>n s. s\<lparr>st_LearnedTotalAtMidnight := n\<rparr>) s
         else Some s)"

fun set_fields :: "(string \<times> jval) list \<Rightarrow> State \<Rightarrow> State option" where
  "set_fields [] s = Some s"
| "set_fields ((k, v) # ms) s = (case set_field k v s of None \<Rightarrow> None | Some s' \<Rightarrow> set_fields ms s')"

definition Unmarshal :: "string \<Rightarrow> State option" where
  "Unmarshal data =
     (case json_parse data of
        Some (JObj ms) \<Rightarrow> set_fields ms zero_State | Some JNull \<Rightarrow> Some zero_State | _ \<Rightarrow> None)"

text \<open>A missing, unreadable or malformed file is the zero state.\<close>

definition state_Load :: "string \<Rightarrow> fs \<Rightarrow> State" where
  "state_Load path fs =
     (case fs path of None \<Rightarrow> zero_State
      | Some data \<Rightarrow> (case Unmarshal data of None \<Rightarrow> zero_State | Some s \<Rightarrow> s))"

definition Save_calls :: "write_io \<Rightarrow> string \<Rightarrow> string \<Rightarrow> string \<Rightarrow> fsop list" where
  "Save_calls io tmp path data =
     (if io_create_fails io then []
      else Op_create tmp #
        (case io_write_fails io of
           Some n \<Rightarrow> [Op_append tmp (take n data), Op_remove tmp, Op_remove tmp]
         | None \<Rightarrow> Op_append tmp data #
             (if io_sync_fails io then [Op_remove tmp, Op_remove tmp]
              else if io_close_fails io then [Op_remove tmp, Op_remove tmp]
              else if io_rename_fails io then [Op_remove tmp]
              else [Op_rename tmp path, Op_remove tmp])))"

definition Save_err :: "write_io \<Rightarrow> bool" where
  "Save_err io = (io_create_fails io \<or> io_write_fails io \<noteq> None \<or> io_sync_fails io
                  \<or> io_close_fails io \<or> io_rename_fails io)"

definition state_Save :: "write_io \<Rightarrow> string \<Rightarrow> string \<Rightarrow> State \<Rightarrow> fs \<Rightarrow> bool \<times> fs" where
  "state_Save io tmp path s fs =
     (Save_err io, fs_run (Save_calls io tmp path (Marshal s)) fs)"

definition state_Update ::
  "write_io \<Rightarrow> string \<Rightarrow> string \<Rightarrow> (State \<Rightarrow> State) \<Rightarrow> fs \<Rightarrow> bool \<times> fs" where
  "state_Update io tmp path fn fs =
     (let s = state_Load path fs in state_Save io tmp path (fn s) fs)"

section \<open>Lemmas\<close>

lemma Save_calls_shape:
  assumes "tmp \<noteq> path"
  shows "\<exists>pre post. (\<forall>x \<in> set pre. op_paths x = {tmp}) \<and> (\<forall>x \<in> set post. op_paths x = {tmp})
      \<and> (Save_calls io tmp path data = pre
         \<or> (Save_calls io tmp path data = pre @ Op_rename tmp path # post
            \<and> (\<forall>fs. fs_run pre fs tmp = Some data)))"
proof (cases "Save_err io")
  case True
  then show ?thesis
    by (intro exI [of _ "Save_calls io tmp path data"] exI [of _ "[]"])
       (auto simp: Save_calls_def Save_err_def split: option.splits)
next
  case False
  then show ?thesis
    by (intro exI [of _ "[Op_create tmp, Op_append tmp data]"] exI [of _ "[Op_remove tmp]"])
       (simp add: Save_calls_def Save_err_def)
qed

interpretation state_file: atomic_replace Save_calls "\<lambda>d. d"
  by unfold_locales (rule Save_calls_shape)

lemma Save_ok_content:
  assumes "\<not> Save_err io" "tmp \<noteq> path"
  shows "fs_run (Save_calls io tmp path data) fs path = Some data"
  using assms by (auto simp: Save_calls_def Save_err_def)

lemma Save_err_keeps:
  assumes "Save_err io" "tmp \<noteq> path"
  shows "fs_run (Save_calls io tmp path data) fs path = fs path"
  using assms by (auto simp: Save_calls_def Save_err_def split: option.splits)

lemma Save_calls_tmp_gone:
  "fs tmp = None \<Longrightarrow> tmp \<noteq> path \<Longrightarrow> fs_run (Save_calls io tmp path data) fs tmp = None"
  by (auto simp: Save_calls_def split: option.splits)

section \<open>The document reads back\<close>

abbreviation int64 :: "int \<Rightarrow> bool" where "int64 n \<equiv> - (2 ^ 63) \<le> n \<and> n < 2 ^ 63"

text \<open>The values a \<open>State\<close> of the program can have; the date is written by \<open>time.Format\<close>.\<close>

definition state_ok :: "State \<Rightarrow> bool" where
  "state_ok s \<longleftrightarrow> is_ascii (st_LearnedTodayDate s) \<and> int64 (st_LastUpdateUnix s) \<and> int64 (st_LastCleanupUnix s)
     \<and> int64 (st_LearnedTodayCount s) \<and> int64 (st_LearnedTotalCount s) \<and> int64 (st_LearnedTotalAtMidnight s)"

lemma int_field_Itoa: "int64 n \<Longrightarrow> int_field (JNum (Itoa n)) f s = Some (f n s)"
  by (simp add: Atoi_Itoa)

lemma Unmarshal_Marshal:
  assumes "state_ok s"
  shows "Unmarshal (Marshal s) = Some s"
proof -
  have "list_all (\<lambda>(k, v). is_ascii k \<and> scalar_ok v) (state_fields s)"
    using assms by (simp add: state_fields_def state_ok_def) (simp add: is_ascii_def)
  then have "Unmarshal (Marshal s) = set_fields (map (\<lambda>(k, v). (k, to_jval v)) (state_fields s)) zero_State"
    by (simp add: Unmarshal_def Marshal_def parse_print_object)
  also have "\<dots> = Some s"
    using assms
    by (simp add: state_fields_def set_field_def ToLower_def ascii_lower_def state_ok_def int_field_Itoa zero_State_def
        del: int_field.simps)
  finally show ?thesis .
qed

end
