(* ===== verification/Metrics.thy ===== *)
theory Metrics
  imports State_File Net_Addr
begin

text \<open>
  Package \<open>internal/metrics\<close>: the counters. The \<open>atomic.Int64\<close> fields of the struct \<open>Metrics\<close>
  are the constructors of \<open>counter\<close>, and their values one function; the other fields are those of
  the record. An atomic \<open>Add\<close> is \<open>inc\<close>, an atomic \<open>Store\<close> is \<open>put\<close>. Readings of the clock are
  arguments: \<open>today\<close> is \<open>time.Now().Format("2006-01-02")\<close>, \<open>tod\<close> the local time of day.
\<close>

datatype counter =
    QueriesTotal | QueriesIran | QueriesGlobal | QueriesRetried | QueriesServfail
  | QueriesCached | CacheMiss | LearnedTotal | LearnedTotalAtMidnight
  | PathTLD | PathPreferIran | PathStore | PathLearn | PathStatic
  | IranLatencyTotal | IranQueryCount | IranTimeouts
  | GlobalLatencyTotal | GlobalQueryCount | GlobalTimeouts
  | TcpFallbackCount | GlobalFallbackCount | GlobalFallbackLatencyTotal
  | StoreRemoved | StoreCleaned | InFlightQueries
  | QueriesRateLimited | QueriesGlobalLimited | LoopDetections
  | IranCBSkipped | IranCBTrips | IranCBOpen
  | GlobalCBSkipped | GlobalCBTrips | GlobalCBOpen | ShortWaitExpired

record metrics =
  cnt :: "counter \<Rightarrow> int"
  m_LastUpdateTime :: "int option"
  m_LastUpdateSuccess :: bool
  m_startTime :: int
  m_statePath :: string
  m_stopped :: bool

definition inc :: "counter \<Rightarrow> int \<Rightarrow> metrics \<Rightarrow> metrics" where
  "inc c d m = m\<lparr>cnt := (cnt m)(c := cnt m c + d)\<rparr>"

definition put :: "counter \<Rightarrow> int \<Rightarrow> metrics \<Rightarrow> metrics" where
  "put c v m = m\<lparr>cnt := (cnt m)(c := v)\<rparr>"

definition metrics_New :: "int \<Rightarrow> metrics" where
  "metrics_New now = \<lparr>cnt = (\<lambda>_. 0), m_LastUpdateTime = None, m_LastUpdateSuccess = False,
     m_startTime = now, m_statePath = [], m_stopped = False\<rparr>"

definition LearnedTodayValue :: "metrics \<Rightarrow> int" where
  "LearnedTodayValue m =
     (let midnight = cnt m LearnedTotalAtMidnight; total = cnt m LearnedTotal
      in if total < midnight then 0 else total - midnight)"

definition RestoreFromFile :: "string \<Rightarrow> string \<Rightarrow> fs \<Rightarrow> metrics \<Rightarrow> metrics" where
  "RestoreFromFile path today fs m0 =
     (let st = state_Load path fs;
          m1 = put LearnedTotal (st_LearnedTotalCount st) (m0\<lparr>m_statePath := path\<rparr>);
          m2 = (if st_LearnedTodayDate st = today \<and> st_LearnedTotalAtMidnight st > 0
                then put LearnedTotalAtMidnight (st_LearnedTotalAtMidnight st) m1
                else if st_LearnedTodayDate st = today then
                  let midnight = st_LearnedTotalCount st - st_LearnedTodayCount st
                  in put LearnedTotalAtMidnight
                       (if midnight < 0 \<or> midnight > st_LearnedTotalCount st
                        then st_LearnedTotalCount st else midnight) m1
                else put LearnedTotalAtMidnight (st_LearnedTotalCount st) m1);
          m3 = (if st_LastUpdateUnix st > 0
                then m2\<lparr>m_LastUpdateTime := Some (st_LastUpdateUnix st * second)\<rparr> else m2)
      in m3\<lparr>m_LastUpdateSuccess := st_LastUpdateSuccess st\<rparr>)"

text \<open>\<open>resetDailyStats\<close>: the delay until the first midnight, and what happens when the timer fires.\<close>

definition first_midnight_delay :: "int \<Rightarrow> int" where
  "first_midnight_delay tod = 24 * hour - tod"

definition midnight_reset ::
  "write_io \<Rightarrow> string \<Rightarrow> string \<Rightarrow> metrics \<times> fs \<Rightarrow> metrics \<times> fs" where
  "midnight_reset io tmp today mf =
     (let (m, fs) = mf; total = cnt m LearnedTotal; m' = put LearnedTotalAtMidnight total m
      in (m', if m_statePath m = [] then fs
              else snd (state_Update io tmp (m_statePath m)
                (\<lambda>st. st\<lparr>st_LearnedTodayDate := today, st_LearnedTodayCount := 0,
                         st_LearnedTotalAtMidnight := total\<rparr>) fs)))"

definition metrics_Stop :: "metrics \<Rightarrow> metrics" where
  "metrics_Stop m = m\<lparr>m_stopped := True\<rparr>"

section \<open>Lemmas on counters\<close>

lemma cnt_inc: "cnt (inc c d m) = (cnt m)(c := cnt m c + d)"
  by (simp add: inc_def)

lemma cnt_put: "cnt (put c v m) = (cnt m)(c := v)"
  by (simp add: put_def)

lemma statePath_inc [simp]: "m_statePath (inc c d m) = m_statePath m"
  by (simp add: inc_def)

lemma statePath_put [simp]: "m_statePath (put c d m) = m_statePath m"
  by (simp add: put_def)

lemmas counter_simps = cnt_inc cnt_put

lemma LearnedTodayValue_nonneg: "0 \<le> LearnedTodayValue m"
  by (simp add: LearnedTodayValue_def Let_def)

lemma RestoreFromFile_cnt:
  "cnt (RestoreFromFile path today fs m) LearnedTotal = st_LearnedTotalCount (state_Load path fs)"
  "c \<noteq> LearnedTotal \<Longrightarrow> c \<noteq> LearnedTotalAtMidnight \<Longrightarrow>
   cnt (RestoreFromFile path today fs m) c = cnt m c"
  by (simp_all add: RestoreFromFile_def Let_def counter_simps)

end
