(* ===== verification/Domain_Store.thy ===== *)
theory Domain_Store
  imports Metrics
begin

text \<open>
  Package \<open>internal/store\<close>: the learned domains. The Go map from names to \<open>true\<close> is the list of
  its keys, without repetition. \<open>s_metrics\<close> says that the pointer to the metrics is not nil; the
  metrics themselves are passed beside the store, as is the file system. A timer field is true
  while its callback is due. Arguments carry what the environment decides: \<open>write_io\<close> and
  \<open>append_io\<close> the failing system calls, \<open>tmp\<close> the name \<open>CreateTemp\<close> chooses, \<open>today\<close> the date,
  \<open>ord\<close> the iteration order of the map.

  The definitions here are the operations run without interference; \<open>Store_Persist\<close> interleaves
  their critical sections.
\<close>

record store =
  domains :: "string list"
  s_file :: string
  s_metrics :: bool
  s_statePath :: string
  s_stopped :: bool
  persistBuf :: "string list"
  persistBufGen :: "64 word"
  writeGen :: "64 word"
  flushBuf :: "State option"
  flushTimer :: bool
  rewriteTimer :: bool

datatype load_error = LoadNotExist | LoadFailed

definition normalize :: "string \<Rightarrow> string" where
  "normalize domain = ToLower (TrimSuffix domain [DOT])"

section \<open>Lookup and loading\<close>

definition store_IsIran :: "store \<Rightarrow> string \<Rightarrow> bool" where
  "store_IsIran s domain = walk_up (\<lambda>d. d \<in> set (domains s)) (normalize domain)"

definition Count :: "store \<Rightarrow> int" where
  "Count s = int (length (domains s))"

fun load_lines :: "string list \<Rightarrow> string list \<Rightarrow> string list" where
  "load_lines [] ds = ds"
| "load_lines (t # ts) ds =
     (let line = TrimSpace t
      in if line = [] \<or> hd line = CHR ''#'' then load_lines ts ds
         else load_lines ts (List.insert line ds))"

text \<open>\<open>read_fails\<close>: the scanner stops with an I/O error after the lines it delivered.\<close>

definition store_load :: "bool \<Rightarrow> fs \<Rightarrow> store \<Rightarrow> load_error option \<times> store" where
  "store_load read_fails fs s =
     (case fs (s_file s) of None \<Rightarrow> (Some LoadNotExist, s)
      | Some data \<Rightarrow>
          let (lines, too_long) = scan_lines data
          in (if too_long \<or> read_fails then Some LoadFailed else None,
              s\<lparr>domains := load_lines lines (domains s)\<rparr>))"

definition empty_store :: "string \<Rightarrow> bool \<Rightarrow> string \<Rightarrow> store" where
  "empty_store file hasm statePath =
     \<lparr>domains = [], s_file = file, s_metrics = hasm, s_statePath = statePath, s_stopped = False,
      persistBuf = [], persistBufGen = 0, writeGen = 0, flushBuf = None, flushTimer = False,
      rewriteTimer = False\<rparr>"

definition store_New :: "bool \<Rightarrow> string \<Rightarrow> bool \<Rightarrow> string \<Rightarrow> fs \<Rightarrow> load_error + store" where
  "store_New read_fails file hasm statePath fs =
     (case store_load read_fails fs (empty_store file hasm statePath) of
        (None, s) \<Rightarrow> Inr s
      | (Some LoadNotExist, s) \<Rightarrow> Inr s
      | (Some e, s) \<Rightarrow> Inl e)"

section \<open>The learned-today state\<close>

definition scheduleFlushLocked :: "store \<Rightarrow> store" where
  "scheduleFlushLocked s = s\<lparr>flushTimer := True\<rparr>"

definition saveStateSoon :: "State \<Rightarrow> store \<Rightarrow> store" where
  "saveStateSoon st s =
     (if s_statePath s = [] then s else scheduleFlushLocked (s\<lparr>flushBuf := Some st\<rparr>))"

definition saveLearnedToday :: "string \<Rightarrow> metrics \<Rightarrow> store \<Rightarrow> store" where
  "saveLearnedToday date m s =
     (if s_statePath s = [] \<or> \<not> s_metrics s then s
      else let total = cnt m LearnedTotal; midnight = cnt m LearnedTotalAtMidnight;
               today = (if total - midnight < 0 then 0 else total - midnight)
           in saveStateSoon (zero_State\<lparr>st_LearnedTodayDate := date, st_LearnedTodayCount := today,
                st_LearnedTotalAtMidnight := midnight, st_LearnedTotalCount := total\<rparr>) s)"

definition flushState ::
  "write_io \<Rightarrow> string \<Rightarrow> store \<times> fs \<Rightarrow> store \<times> fs" where
  "flushState io tmp sf =
     (let (s, fs) = sf in case flushBuf s of None \<Rightarrow> (s, fs)
      | Some st \<Rightarrow>
         (s\<lparr>flushBuf := None\<rparr>,
          snd (state_Update io tmp (s_statePath s)
            (\<lambda>s2. s2\<lparr>st_LearnedTotalCount := st_LearnedTotalCount st,
                     st_LearnedTotalAtMidnight := st_LearnedTotalAtMidnight st,
                     st_LearnedTodayCount := st_LearnedTodayCount st,
                     st_LearnedTodayDate := st_LearnedTodayDate st\<rparr>) fs)))"

definition saveCleanupTime ::
  "write_io \<Rightarrow> string \<Rightarrow> int \<Rightarrow> store \<Rightarrow> fs \<Rightarrow> fs" where
  "saveCleanupTime io tmp unix s fs =
     (if s_statePath s = [] then fs
      else snd (state_Update io tmp (s_statePath s) (\<lambda>st. st\<lparr>st_LastCleanupUnix := unix\<rparr>) fs))"

section \<open>Adding and removing\<close>

definition persist :: "string \<Rightarrow> store \<Rightarrow> store" where
  "persist domain s = s\<lparr>persistBuf := persistBuf s @ [domain], persistBufGen := writeGen s\<rparr>"

definition store_Add :: "string \<Rightarrow> string \<Rightarrow> store \<times> metrics \<Rightarrow> store \<times> metrics" where
  "store_Add date domain0 sm =
     (let (s, m) = sm; domain = normalize domain0
      in if domain \<in> set (domains s) then (s, m)
         else let s1 = s\<lparr>domains := domains s @ [domain]\<rparr>;
                  m1 = (if s_metrics s then inc LearnedTotal 1 m else m);
                  s2 = persist domain s1
              in (if s_metrics s \<and> cnt m1 LearnedTotal mod 50 = 0 then saveLearnedToday date m1 s2 else s2,
                  m1))"

definition scheduleRewrite :: "store \<Rightarrow> store" where
  "scheduleRewrite s = s\<lparr>rewriteTimer := True\<rparr>"

definition store_Remove :: "string \<Rightarrow> store \<times> metrics \<Rightarrow> store \<times> metrics" where
  "store_Remove domain0 sm =
     (let (s, m) = sm; domain = normalize domain0
      in if domain \<notin> set (domains s) then (s, m)
         else (scheduleRewrite (s\<lparr>domains := remove1 domain (domains s)\<rparr>),
               if s_metrics s then inc StoreRemoved 1 m else m))"

section \<open>The file of learned domains\<close>

text \<open>\<open>flushPersist\<close>: \<open>ap_short i\<close> is how many bytes the \<open>i\<close>th write writes when it fails (the
  program ignores the error and goes on).\<close>

record append_io =
  ap_open_fails :: bool
  ap_short :: "nat \<Rightarrow> nat option"

definition append_fine :: append_io where
  "append_fine = \<lparr>ap_open_fails = False, ap_short = (\<lambda>_. None)\<rparr>"

definition cut_line :: "append_io \<Rightarrow> nat \<Rightarrow> string \<Rightarrow> string" where
  "cut_line ap i d = (case ap_short ap i of None \<Rightarrow> d @ [NL] | Some n \<Rightarrow> take n (d @ [NL]))"

definition append_calls :: "append_io \<Rightarrow> string \<Rightarrow> string list \<Rightarrow> fsop list" where
  "append_calls ap file ds =
     (if ap_open_fails ap then []
      else Op_append file [] # map (\<lambda>(i, d). Op_append file (cut_line ap i d)) (enumerate 0 ds))"

text \<open>The two critical sections of \<open>flushPersist\<close>, under \<open>persistMu\<close> and under \<open>ioMu\<close>.\<close>

definition flush_drain :: "store \<Rightarrow> (string list \<times> 64 word) option \<times> store" where
  "flush_drain s =
     (if persistBuf s = [] then (None, s)
      else (Some (persistBuf s, persistBufGen s), s\<lparr>persistBuf := [], persistBufGen := 0\<rparr>))"

definition flush_write :: "append_io \<Rightarrow> string list \<times> 64 word \<Rightarrow> store \<Rightarrow> fs \<Rightarrow> fs" where
  "flush_write ap b s fs =
     (if writeGen s \<noteq> snd b then fs else fs_run (append_calls ap (s_file s) (fst b)) fs)"

definition flushPersist :: "append_io \<Rightarrow> store \<times> fs \<Rightarrow> store \<times> fs" where
  "flushPersist ap sf =
     (let (s, fs) = sf in case flush_drain s of
        (None, s1) \<Rightarrow> (s1, fs)
      | (Some b, s1) \<Rightarrow> (s1, flush_write ap b s1 fs))"

text \<open>\<open>writeAll\<close>: a failed \<open>Sync\<close> is only logged.\<close>

definition writeAll_calls :: "write_io \<Rightarrow> string \<Rightarrow> string \<Rightarrow> string list \<Rightarrow> fsop list" where
  "writeAll_calls io tmp file ds =
     (if io_create_fails io then []
      else Op_create tmp #
        (case io_write_fails io of
           Some n \<Rightarrow> [Op_append tmp (take n (line_text ds)), Op_remove tmp]
         | None \<Rightarrow> map (\<lambda>d. Op_append tmp (d @ [NL])) ds @
             (if io_close_fails io \<or> io_rename_fails io then [Op_remove tmp]
              else [Op_rename tmp file, Op_remove tmp])))"

definition writeAll_err :: "write_io \<Rightarrow> bool" where
  "writeAll_err io = (io_create_fails io \<or> io_write_fails io \<noteq> None \<or> io_close_fails io
                      \<or> io_rename_fails io)"

definition writeAll ::
  "write_io \<Rightarrow> (string list \<Rightarrow> string list) \<Rightarrow> string \<Rightarrow> store \<times> fs \<Rightarrow> store \<times> fs" where
  "writeAll io ord tmp sf =
     (let (s, fs) = sf; s1 = s\<lparr>writeGen := writeGen s + 1\<rparr>;
          ds = sort (ord (domains s1))
      in (s1, fs_run (writeAll_calls io tmp (s_file s1) ds) fs))"

section \<open>Cleanup\<close>

text \<open>
  \<open>healthCheck\<close> is asked until it answers true; the list holds its answers until \<open>Stop\<close>. The
  result is whether the cleanup goes on and the pauses made.
\<close>

definition maxBackoff :: int where "maxBackoff = 60 * second"

fun await_health :: "bool list \<Rightarrow> int \<Rightarrow> bool \<times> int list" where
  "await_health [] backoff = (False, [])"
| "await_health (True # hs) backoff = (True, [])"
| "await_health (False # hs) backoff =
     (let b2 = backoff * 2; b3 = (if b2 > maxBackoff then maxBackoff else b2);
          (go, ws) = await_health hs b3
      in (go, backoff # ws))"

fun delete_all :: "string list \<Rightarrow> string list \<Rightarrow> int \<Rightarrow> string list \<times> int" where
  "delete_all [] ds n = (ds, n)"
| "delete_all (d # rs) ds n =
     (if d \<in> set ds then delete_all rs (remove1 d ds) (n + 1) else delete_all rs ds n)"

text \<open>
  One run of \<open>cleanup\<close>. The workers ask \<open>validate\<close> about every domain of the snapshot; \<open>validate\<close>
  gives the answers of this run, \<open>workers\<close> permutes the refused ones into the order the workers
  append them, \<open>mid\<close> is what other goroutines do to the store, the metrics and the files while the
  workers run. \<open>stopped\<close>: \<open>Stop\<close> is called before every domain was handed to a worker; with \<open>qps = 0\<close>
  there is no worker, and only \<open>Stop\<close> ends the run. A worker that sees \<open>Stop\<close> skips the domain it holds:
  for the run such a domain counts as valid, since it is not removed.
\<close>

record cleanup_env =
  ce_health :: "bool list"
  ce_validate :: "string \<Rightarrow> bool"
  ce_order :: "string list \<Rightarrow> string list"
  ce_workers :: "string list \<Rightarrow> string list"
  ce_mid :: "store \<times> metrics \<times> fs \<Rightarrow> store \<times> metrics \<times> fs"
  ce_stopped :: bool
  ce_io :: write_io
  ce_tmp :: string
  ce_state_io :: write_io
  ce_state_tmp :: string
  ce_unix :: int

definition cleanup_remove :: "string list \<Rightarrow> store \<times> metrics \<Rightarrow> store \<times> metrics" where
  "cleanup_remove toRemove sm =
     (let (s, m) = sm; (ds, removed) = delete_all toRemove (domains s) 0
      in (s\<lparr>domains := ds\<rparr>, if s_metrics s then inc StoreCleaned removed m else m))"

definition store_cleanup ::
  "cleanup_env \<Rightarrow> store \<times> metrics \<times> fs \<Rightarrow> store \<times> metrics \<times> fs" where
  "store_cleanup e smf =
     (let (s, m, fs) = smf
      in if \<not> fst (await_health (ce_health e) second) then (s, m, fs)
         else let snap = ce_order e (domains s); (s1, m1, fs1) = ce_mid e (s, m, fs)
         in if ce_stopped e then (s1, m1, fs1)
         else let toRemove = ce_workers e (filter (\<lambda>d. \<not> ce_validate e d) snap);
                  (s2, m2) = cleanup_remove toRemove (s1, m1);
                  (s3, fs3) = writeAll (ce_io e) (ce_order e) (ce_tmp e) (s2, fs1);
                  s4 = s3\<lparr>rewriteTimer := False\<rparr>
              in (s4, m2, saveCleanupTime (ce_state_io e) (ce_state_tmp e) (ce_unix e) s4 fs3))"

text \<open>\<open>StartCleanup\<close>: the pause before the next run.\<close>

definition next_cleanup_delay :: "int option \<Rightarrow> int" where
  "next_cleanup_delay nextDelay = (case nextDelay of Some d \<Rightarrow> d | None \<Rightarrow> 24 * hour)"

section \<open>Stop\<close>

definition store_Stop ::
  "write_io \<Rightarrow> string \<Rightarrow> string \<Rightarrow> store \<times> metrics \<times> fs \<Rightarrow> store \<times> metrics \<times> fs" where
  "store_Stop io tmp date smf =
     (let (s, m, fs) = smf;
          s1 = s\<lparr>s_stopped := True, rewriteTimer := False\<rparr>;
          s2 = (saveLearnedToday date m s1)\<lparr>flushTimer := False\<rparr>;
          (s3, fs3) = (if flushBuf s2 \<noteq> None then flushState io tmp (s2, fs) else (s2, fs))
      in (s3, m, fs3))"

text \<open>The flusher goroutine ends with one more \<open>flushPersist\<close>, after the channel is closed.\<close>

definition stop_and_flush ::
  "write_io \<Rightarrow> append_io \<Rightarrow> string \<Rightarrow> string \<Rightarrow> store \<times> metrics \<times> fs \<Rightarrow> store \<times> metrics \<times> fs" where
  "stop_and_flush io ap tmp date smf =
     (let (s, m, fs) = store_Stop io tmp date smf; (s', fs') = flushPersist ap (s, fs)
      in (s', m, fs'))"

section \<open>Lookup\<close>

interpretation learned: suffix_matcher store_IsIran "\<lambda>s. set (domains s)"
  by unfold_locales (simp add: store_IsIran_def normalize_def fold_name_def)

lemma normalize_fold: "normalize d = fold_name d"
  by (simp add: normalize_def fold_name_def)

definition store_inv :: "store \<Rightarrow> bool" where
  "store_inv s \<longleftrightarrow> distinct (domains s)"

lemma saveStateSoon_frame [frame, simp]:
  "domains (saveStateSoon st s) = domains s" "s_file (saveStateSoon st s) = s_file s"
  "persistBuf (saveStateSoon st s) = persistBuf s" "writeGen (saveStateSoon st s) = writeGen s"
  "persistBufGen (saveStateSoon st s) = persistBufGen s" "s_metrics (saveStateSoon st s) = s_metrics s"
  "s_statePath (saveStateSoon st s) = s_statePath s" "rewriteTimer (saveStateSoon st s) = rewriteTimer s"
  by (simp_all add: saveStateSoon_def scheduleFlushLocked_def)

lemma saveLearnedToday_frame [frame, simp]:
  "domains (saveLearnedToday t m s) = domains s" "s_file (saveLearnedToday t m s) = s_file s"
  "persistBuf (saveLearnedToday t m s) = persistBuf s" "writeGen (saveLearnedToday t m s) = writeGen s"
  "persistBufGen (saveLearnedToday t m s) = persistBufGen s"
  "s_metrics (saveLearnedToday t m s) = s_metrics s"
  "s_statePath (saveLearnedToday t m s) = s_statePath s"
  "rewriteTimer (saveLearnedToday t m s) = rewriteTimer s"
  by (simp_all add: saveLearnedToday_def Let_def)

lemma store_Add_domains:
  "domains (fst (store_Add t d (s, m))) =
     (if normalize d \<in> set (domains s) then domains s else domains s @ [normalize d])"
  by (simp add: store_Add_def Let_def persist_def)

lemma store_Remove_domains:
  "domains (fst (store_Remove d (s, m))) = remove1 (normalize d) (domains s)"
  by (simp add: store_Remove_def Let_def scheduleRewrite_def remove1_idem)

lemma store_Add_inv [inv_intro]: "store_inv s \<Longrightarrow> store_inv (fst (store_Add t d (s, m)))"
  by (simp add: store_inv_def store_Add_domains)

lemma store_Remove_inv [inv_intro]: "store_inv s \<Longrightarrow> store_inv (fst (store_Remove d (s, m)))"
  by (simp add: store_inv_def store_Remove_domains)

text \<open>
  Learning a domain: afterwards the store recognises that domain and everything below it,
  whatever the case and the trailing dot of the query, and nothing else that it did not recognise
  before; \<open>LearnedTotal\<close> counts it exactly when it is new.
\<close>

theorem store_Add_exact:
  "store_IsIran (fst (store_Add t d (s, m))) x \<longleftrightarrow>
     store_IsIran s x \<or> subdomain_of (normalize x) (normalize d)"
  by (auto simp: learned.matches_iff store_Add_domains normalize_fold)

text \<open>
  Forgetting a domain: afterwards the store recognises a name exactly when it lies below one
  of the other learned domains, so removing a domain does not touch its learned parents or
  children.
\<close>

theorem store_Remove_exact:
  assumes "store_inv s"
  shows "store_IsIran (fst (store_Remove d (s, m))) x \<longleftrightarrow>
     (\<exists>y \<in> set (domains s). y \<noteq> normalize d \<and> subdomain_of (normalize x) y)"
  using assms by (auto simp: learned.matches_iff store_Remove_domains normalize_fold store_inv_def)

lemma ToLower_suffix: "ToLower x = p @ d \<Longrightarrow> ToLower d = d"
  by (metis ToLower_idem ToLower_append append_same_eq append_eq_append_conv length_ToLower)

text \<open>
  C34. The file of learned domains is read without normalising it: a line with a capital letter (a file that
  was edited or copied by hand) is loaded and counted, but no query ever matches it, since queries are
  folded to lower case before they are looked up.
\<close>

theorem mixed_case_line_never_matches:
  assumes "store_New False file hasm stp fs = Inr s" "d \<in> set (domains s)" "ToLower d \<noteq> d"
  shows "store_IsIran s x \<longleftrightarrow> (\<exists>y \<in> set (domains s). y \<noteq> d \<and> subdomain_of (normalize x) y)"
proof -
  have "\<not> subdomain_of (normalize x) d"
    using assms(3) ToLower_suffix [of _ "[]" d] ToLower_suffix [of _ "_ @ [DOT]" d]
    by (auto simp: subdomain_of_def normalize_def)
  then show ?thesis by (auto simp: learned.matches_iff normalize_fold)
qed

section \<open>The file\<close>

definition storable :: "string \<Rightarrow> bool" where
  "storable d \<longleftrightarrow> d \<noteq> [] \<and> hd d \<noteq> CHR ''#'' \<and> TrimSpace d = d \<and> NL \<notin> set d \<and> int (length d) < max_token"

lemma TrimSpace_last:
  assumes "TrimSpace d = d" "d \<noteq> []"
  shows "\<not> is_space (last d)"
proof -
  let ?r = "rev (dropWhile is_space d)"
  have eq: "rev (dropWhile is_space ?r) = d" using assms(1) by (simp add: TrimSpace_def)
  then have ne: "dropWhile is_space ?r \<noteq> []" using assms(2) by (metis rev.simps(1))
  have "last d = hd (dropWhile is_space ?r)" using eq ne by (metis last_rev)
  then show ?thesis using hd_dropWhile [OF ne] by simp
qed

lemma storable_clean: "storable d \<Longrightarrow> clean_line d"
  using TrimSpace_last [of d] by (auto simp: storable_def clean_line_def is_space_def)

lemma load_lines_set:
  "list_all storable ls \<Longrightarrow> set (load_lines ls ds) = set ds \<union> set ls"
  by (induction ls ds rule: load_lines.induct) (auto simp: storable_def Let_def)

lemma load_lines_distinct: "distinct ds \<Longrightarrow> distinct (load_lines ls ds)"
  by (induction ls ds rule: load_lines.induct) (auto simp: Let_def)

lemma fs_run_appends:
  "fs_run (map (\<lambda>d. Op_append p (d @ [NL])) ds) fs p =
     (if ds = [] then fs p
      else Some ((case fs p of None \<Rightarrow> [] | Some c \<Rightarrow> c) @ line_text ds))"
  by (induction ds arbitrary: fs) (auto simp: line_text_def split: option.splits)

lemma writeAll_calls_shape:
  assumes "tmp \<noteq> file"
  shows "\<exists>pre post. (\<forall>x \<in> set pre. op_paths x = {tmp}) \<and> (\<forall>x \<in> set post. op_paths x = {tmp})
      \<and> (writeAll_calls io tmp file ds = pre
         \<or> (writeAll_calls io tmp file ds = pre @ Op_rename tmp file # post
            \<and> (\<forall>fs. fs_run pre fs tmp = Some (line_text ds))))"
proof (cases "writeAll_err io")
  case True
  then show ?thesis
    by (intro exI [of _ "writeAll_calls io tmp file ds"] exI [of _ "[]"])
       (auto simp: writeAll_calls_def writeAll_err_def split: option.splits)
next
  case False
  then show ?thesis
    by (intro exI [of _ "Op_create tmp # map (\<lambda>d. Op_append tmp (d @ [NL])) ds"]
        exI [of _ "[Op_remove tmp]"])
       (auto simp: writeAll_calls_def writeAll_err_def fs_run_appends line_text_def)
qed

interpretation learned_file: atomic_replace writeAll_calls line_text
  by unfold_locales (rule writeAll_calls_shape)

lemma writeAll_ok:
  assumes "\<not> writeAll_err io" "tmp \<noteq> file"
  shows "fs_run (writeAll_calls io tmp file ds) fs file = Some (line_text ds)"
  using assms by (auto simp: writeAll_calls_def writeAll_err_def fs_run_append fs_run_appends line_text_def)

lemma writeAll_fails:
  assumes "writeAll_err io" "tmp \<noteq> file"
  shows "fs_run (writeAll_calls io tmp file ds) fs file = fs file"
  using assms by (intro fs_run_other) (auto simp: writeAll_calls_def writeAll_err_def split: option.splits)

text \<open>What a restart would load from the file system.\<close>

definition reload_set :: "string \<Rightarrow> fs \<Rightarrow> string set" where
  "reload_set file fs = (case fs file of None \<Rightarrow> {} | Some data \<Rightarrow> set (load_lines (fst (scan_lines data)) []))"

lemma reload_line_text:
  assumes "list_all storable ds" "fs file = Some (line_text ds)"
  shows "reload_set file fs = set ds"
proof -
  have "list_all clean_line ds" using assms(1) storable_clean by (auto simp: list_all_iff)
  then show ?thesis using assms by (simp add: reload_set_def scan_line_text load_lines_set)
qed

lemma list_all_sort: "iter_order ord \<Longrightarrow> list_all P (sort (ord xs)) = list_all P xs"
  by (simp add: list_all_iff iter_order_set)

text \<open>
  C30. A crash anywhere inside \<open>writeAll\<close>, with any of its system calls failing, leaves a file from
  which a restart loads either the domains it would have loaded before or exactly the domains now
  in memory, provided every domain is storable: not empty, not starting with a hash sign, without
  surrounding space or a line break, shorter than 64 KiB.
\<close>

theorem writeAll_crash_safe:
  assumes "list_all storable (domains s)" "iter_order ord" "tmp \<noteq> s_file s"
    and "c \<in> set (crash_states (writeAll_calls io tmp (s_file s) (sort (ord (domains s)))) fs)"
  shows "reload_set (s_file s) c = reload_set (s_file s) fs
       \<or> reload_set (s_file s) c = set (domains s)"
proof -
  consider "c (s_file s) = fs (s_file s)" | "c (s_file s) = Some (line_text (sort (ord (domains s))))"
    using learned_file.crash_old_or_new [OF assms(3,4)] by blast
  then show ?thesis
  proof cases
    case 1
    then show ?thesis by (simp add: reload_set_def)
  next
    case 2
    then show ?thesis
      using reload_line_text [of _ c "s_file s", OF _ 2] assms(1,2)
      by (simp add: list_all_sort iter_order_set)
  qed
qed


section \<open>Cleanup\<close>

lemma delete_all_eq:
  "distinct ds \<Longrightarrow> distinct rs \<Longrightarrow>
   delete_all rs ds n = (filter (\<lambda>d. d \<notin> set rs) ds, n + int (card (set rs \<inter> set ds)))"
proof (induction rs ds n rule: delete_all.induct)
  case (1 ds n)
  then show ?case by simp
next
  case (2 d rs ds n)
  have f: "filter (\<lambda>x. x \<notin> set rs) (remove1 d ds) = filter (\<lambda>x. x \<notin> set (d # rs)) ds"
    using 2(3) by (auto simp: distinct_remove1_removeAll removeAll_filter_not_eq intro: filter_cong)
  show ?case
  proof (cases "d \<in> set ds")
    case True
    have "set (d # rs) \<inter> set ds = insert d (set rs \<inter> set (remove1 d ds))"
      using True 2(3,4) by auto
    moreover have "d \<notin> set rs \<inter> set (remove1 d ds)" using 2(4) by auto
    ultimately have "card (set (d # rs) \<inter> set ds) = card (set rs \<inter> set (remove1 d ds)) + 1" by simp
    then show ?thesis using True 2 f by simp
  next
    case False
    then have "filter (\<lambda>x. x \<notin> set (d # rs)) ds = filter (\<lambda>x. x \<notin> set rs) ds"
      by (auto intro: filter_cong)
    then show ?thesis using False 2 by simp
  qed
qed

lemma await_health_pauses:
  "0 < b \<Longrightarrow> b \<le> maxBackoff \<Longrightarrow>
   snd (await_health hs b) = map (\<lambda>i. min (b * 2 ^ i) maxBackoff) [0..<length (takeWhile Not hs)]"
proof (induction hs b rule: await_health.induct)
  case (3 hs b)
  let ?b = "if b * 2 > maxBackoff then maxBackoff else b * 2"
  let ?n = "length (takeWhile Not hs)"
  have IH: "snd (await_health hs ?b) = map (\<lambda>i. min (?b * 2 ^ i) maxBackoff) [0..<?n]"
    using 3 by (simp add: maxBackoff_def)
  have step: "min (?b * 2 ^ i) maxBackoff = min (b * 2 ^ Suc i) maxBackoff" for i
  proof (cases "b * 2 > maxBackoff")
    case True
    have one: "(1::int) \<le> 2 ^ i" by simp
    have "maxBackoff * 1 \<le> maxBackoff * 2 ^ i"
      using one by (intro mult_left_mono) (simp_all add: maxBackoff_def)
    moreover have "b * 2 * 1 \<le> b * 2 * 2 ^ i"
      using one 3(2) by (intro mult_left_mono) simp_all
    ultimately show ?thesis using True by (simp add: mult.assoc)
  qed (simp add: mult.assoc)
  have "snd (await_health (False # hs) b) = b # snd (await_health hs ?b)"
    by (simp add: Let_def split: prod.splits)
  also have "\<dots> = map (\<lambda>i. min (b * 2 ^ i) maxBackoff) (0 # map Suc [0..<?n])"
    using 3(2,3) by (simp add: IH step del: upt_Suc)
  also have "0 # map Suc [0..<?n] = [0..<length (takeWhile Not (False # hs))]"
    by (simp add: map_Suc_upt upt_conv_Cons del: upt_Suc)
  finally show ?case .
qed auto

lemma state_Update_other:
  assumes "p \<noteq> tmp" "p \<noteq> path"
  shows "snd (state_Update io tmp path f fs) p = fs p"
proof -
  have "fs_run (Save_calls io tmp path data) fs p = fs p" for data
    using assms by (intro fs_run_other) (auto simp: Save_calls_def split: option.splits)
  then show ?thesis by (simp add: state_Update_def state_Save_def Let_def)
qed

lemma saveCleanupTime_other:
  "p \<noteq> tmp \<Longrightarrow> p \<noteq> s_statePath s \<Longrightarrow> saveCleanupTime io tmp u s fs p = fs p"
  by (simp add: saveCleanupTime_def state_Update_other)

lemma writeAll_frame [frame]:
  "domains (fst (writeAll io ord tmp (s, fs))) = domains s"
  "s_file (fst (writeAll io ord tmp (s, fs))) = s_file s"
  "s_statePath (fst (writeAll io ord tmp (s, fs))) = s_statePath s"
  by (simp_all add: writeAll_def Let_def)

text \<open>
  C19. One complete run of the cleanup: it deletes exactly the domains that were in the snapshot, are
  still in the store, and were refused by the validation; a domain learned while the workers ran is
  kept. \<open>StoreCleaned\<close> grows by the number of deletions, and the rewritten file holds what is left.
\<close>

theorem cleanup_exact:
  assumes run: "store_cleanup e (s, m, fs) = (s', m', fs')"
    and go: "fst (await_health (ce_health e) second)" "\<not> ce_stopped e"
    and mid: "ce_mid e (s, m, fs) = (s1, m1, fs1)" "distinct (domains s1)" "s_metrics s1"
    and snap: "distinct (domains s)" "iter_order (ce_order e)" "iter_order (ce_workers e)"
    and io: "\<not> writeAll_err (ce_io e)" "ce_tmp e \<noteq> s_file s1" "ce_state_tmp e \<noteq> s_file s1"
      "s_statePath s1 \<noteq> s_file s1" "list_all storable (domains s1)"
  shows "domains s' = filter (\<lambda>d. d \<in> set (domains s) \<longrightarrow> ce_validate e d) (domains s1)
    \<and> cnt m' StoreCleaned = cnt m1 StoreCleaned + int (length (domains s1)) - int (length (domains s'))
    \<and> reload_set (s_file s1) fs' = set (domains s')"
proof (intro conjI)
  let ?rm = "ce_workers e (filter (\<lambda>d. \<not> ce_validate e d) (ce_order e (domains s)))"
  have rm: "set ?rm = {d \<in> set (domains s). \<not> ce_validate e d}" "distinct ?rm"
    using snap by (auto simp: iter_order_set iter_order_distinct)
  have del: "delete_all ?rm (domains s1) 0 =
      (filter (\<lambda>d. d \<notin> set ?rm) (domains s1), int (card (set ?rm \<inter> set (domains s1))))"
    using delete_all_eq [OF mid(2) rm(2), of 0] by simp
  let ?s2 = "s1\<lparr>domains := filter (\<lambda>d. d \<notin> set ?rm) (domains s1)\<rparr>"
  let ?w = "writeAll (ce_io e) (ce_order e) (ce_tmp e) (?s2, fs1)"
  have s': "s' = (fst ?w)\<lparr>rewriteTimer := False\<rparr>"
    and m': "m' = inc StoreCleaned (int (card (set ?rm \<inter> set (domains s1)))) m1"
    and fs': "fs' = saveCleanupTime (ce_state_io e) (ce_state_tmp e) (ce_unix e) s' (snd ?w)"
    using run go mid(1,3)
    by (auto simp: store_cleanup_def Let_def cleanup_remove_def del split: prod.splits)
  have d: "domains s' = filter (\<lambda>d. d \<notin> set ?rm) (domains s1)"
    by (simp add: s' writeAll_frame)
  show g1: "domains s' = filter (\<lambda>d. d \<in> set (domains s) \<longrightarrow> ce_validate e d) (domains s1)"
    unfolding d rm(1) by (intro filter_cong) auto
  have "card (set ?rm \<inter> set (domains s1)) = length (filter (\<lambda>d. d \<in> set ?rm) (domains s1))"
    using mid(2) by (metis distinct_card distinct_filter set_filter Int_commute Int_def Collect_mem_eq mem_Collect_eq inf_set_def)
  moreover have "length (filter (\<lambda>d. d \<in> set ?rm) (domains s1)) + length (domains s') = length (domains s1)"
    unfolding d using sum_length_filter_compl [of "\<lambda>d. d \<in> set ?rm" "domains s1"] by simp
  ultimately show "cnt m' StoreCleaned =
      cnt m1 StoreCleaned + int (length (domains s1)) - int (length (domains s'))"
    by (simp add: m' counter_simps)
  have "snd ?w (s_file s1) = Some (line_text (sort (ce_order e (domains s'))))"
    using io by (simp add: writeAll_def Let_def writeAll_ok d)
  moreover have "fs' (s_file s1) = snd ?w (s_file s1)"
    unfolding fs' using io by (intro saveCleanupTime_other) (simp_all add: s' writeAll_frame)
  ultimately have "fs' (s_file s1) = Some (line_text (sort (ce_order e (domains s'))))" by simp
  moreover have "list_all storable (domains s')" using io(5) by (auto simp: d list_all_iff)
  ultimately show "reload_set (s_file s1) fs' = set (domains s')"
    using reload_line_text [of "sort (ce_order e (domains s'))" fs' "s_file s1"] snap(2)
    by (simp add: list_all_sort iter_order_set)
qed

section \<open>Shutdown\<close>

lemma flushState_other:
  "p \<noteq> tmp \<Longrightarrow> p \<noteq> s_statePath s \<Longrightarrow> snd (flushState io tmp (s, fs)) p = fs p"
  by (simp add: flushState_def state_Update_other split: option.splits)

lemma flushState_frame [frame]:
  "domains (fst (flushState io tmp (s, fs))) = domains s"
  "persistBuf (fst (flushState io tmp (s, fs))) = persistBuf s"
  "rewriteTimer (fst (flushState io tmp (s, fs))) = rewriteTimer s"
  by (simp_all add: flushState_def split: option.splits)

text \<open>
  A removal that is still waiting for its delayed rewrite is undone by a restart: \<open>Stop\<close> cancels
  the rewrite timer and nothing writes the file afterwards, so the next process loads the removed
  domain again.
\<close>

theorem removal_lost_at_Stop:
  assumes "store_inv s" "persistBuf s = []" "s_statePath s \<noteq> s_file s" "tmp \<noteq> s_file s"
    and "store_Remove d (s, m) = (s1, m1)" "stop_and_flush io ap tmp date (s1, m1, fs) = (s2, m2, fs2)"
  shows "normalize d \<notin> set (domains s2) \<and> \<not> rewriteTimer s2
       \<and> reload_set (s_file s) fs2 = reload_set (s_file s) fs"
proof -
  let ?r = "saveLearnedToday date m1 (s1\<lparr>s_stopped := True, rewriteTimer := False\<rparr>)\<lparr>flushTimer := False\<rparr>"
  have s1: "domains s1 = remove1 (normalize d) (domains s)" "persistBuf s1 = []"
    "s_statePath s1 = s_statePath s" "s_file s1 = s_file s"
    using assms(2,5) store_Remove_domains [of d s m]
    by (auto simp: store_Remove_def Let_def scheduleRewrite_def split: if_splits)
  let ?f = "if flushBuf ?r \<noteq> None then flushState io tmp (?r, fs) else (?r, fs)"
  have "persistBuf (fst ?f) = []" using s1 by (simp add: flushState_frame)
  then have f: "(s2, fs2) = ?f"
    using assms(6)
    by (auto simp: stop_and_flush_def store_Stop_def Let_def flushPersist_def flush_drain_def
        split: prod.splits if_splits)
  then have e: "s2 = fst ?f" "fs2 = snd ?f" by (simp_all only: f [symmetric] fst_conv snd_conv)
  have "fs2 (s_file s) = fs (s_file s)"
    using e(2) s1 assms(3,4) flushState_other [of "s_file s" tmp ?r io fs] by simp
  moreover have "domains s2 = domains s1" "\<not> rewriteTimer s2"
    using e(1) flushState_frame [of io tmp ?r fs] by simp_all
  ultimately show ?thesis using s1 assms(1) by (simp add: store_inv_def reload_set_def)
qed

section \<open>Witnesses\<close>

definition sample_store :: store where
  "sample_store = (empty_store ''f'' True [])\<lparr>domains := [''a.ir'', ''b.org'']\<rparr>"

lemma sample_store_ok: "store_inv sample_store" "list_all storable (domains sample_store)"
  "s_file sample_store = ''f''" "set (domains sample_store) = {''a.ir'', ''b.org''}"
  "''t'' \<noteq> s_file sample_store" "persistBuf sample_store = []" "s_statePath sample_store = []"
  by (simp_all add: store_inv_def sample_store_def empty_store_def) code_simp

theorem store_Remove_exact_witness:
  "\<not> store_IsIran (fst (store_Remove ''A.ir.'' (sample_store, metrics_New 0))) ''www.a.ir''"
proof -
  have n: "normalize ''A.ir.'' = ''a.ir''" "normalize ''www.a.ir'' = ''www.a.ir''" by code_simp+
  have "\<not> subdomain_of ''www.a.ir'' ''b.org''" by (simp add: subdomain_of_def append_eq_Cons_conv)
  then show ?thesis
    using store_Remove_exact [OF sample_store_ok(1), of "''A.ir.''" "metrics_New 0" "''www.a.ir''"]
      sample_store_ok(4) n by auto
qed

theorem writeAll_crash_safe_witness:
  "\<exists>c. c = fs_run (take 3 (writeAll_calls io_fine ''t'' ''f'' [''a.ir'', ''b.org''])) [''f'' \<mapsto> line_text [''c.com'']]
     \<and> (reload_set ''f'' c = {''c.com''} \<or> reload_set ''f'' c = {''a.ir'', ''b.org''})"
proof -
  let ?fs = "[''f'' \<mapsto> line_text [''c.com'']]"
  let ?calls = "writeAll_calls io_fine ''t'' (s_file sample_store) (sort (domains sample_store))"
  let ?c = "fs_run (take 3 ?calls) ?fs"
  have srt: "sort (domains sample_store) = [''a.ir'', ''b.org'']" by code_simp
  have "3 \<le> length ?calls" by (simp add: writeAll_calls_def io_fine_def srt)
  then have "?c \<in> set (crash_states ?calls ?fs)" unfolding crash_states_iff by blast
  note safe = writeAll_crash_safe [OF sample_store_ok(2) iter_order_id sample_store_ok(5) this]
  have "storable ''c.com''" by code_simp
  then have "reload_set ''f'' ?fs = {''c.com''}"
    by (subst reload_line_text [of "[''c.com'']"]) simp_all
  with safe srt sample_store_ok(3,4) show ?thesis
    by (intro exI [of _ ?c]) (simp del: fun_upd_apply)
qed


definition sample_cleanup :: cleanup_env where
  "sample_cleanup = \<lparr>ce_health = [False, True], ce_validate = (\<lambda>d. d = ''a.ir''), ce_order = rev,
     ce_workers = rev, ce_mid = (\<lambda>x. x), ce_stopped = False, ce_io = io_fine, ce_tmp = ''t'',
     ce_state_io = io_fine, ce_state_tmp = ''t'', ce_unix = 0\<rparr>"

theorem cleanup_exact_witness:
  "\<exists>s' m' fs'. store_cleanup sample_cleanup (sample_store, metrics_New 0, Map.empty) = (s', m', fs')
     \<and> domains s' = [''a.ir''] \<and> cnt m' StoreCleaned = 1 \<and> reload_set ''f'' fs' = {''a.ir''}"
proof -
  let ?r = "store_cleanup sample_cleanup (sample_store, metrics_New 0, Map.empty)"
  obtain s' m' fs' where r: "?r = (s', m', fs')" by (metis prod_cases3)
  have "domains s' = filter (\<lambda>d. d \<in> set (domains sample_store) \<longrightarrow> ce_validate sample_cleanup d) (domains sample_store)
    \<and> cnt m' StoreCleaned = cnt (metrics_New 0) StoreCleaned + int (length (domains sample_store)) - int (length (domains s'))
    \<and> reload_set (s_file sample_store) fs' = set (domains s')"
    by (rule cleanup_exact [OF r, where ?fs1.0 = Map.empty])
       (use sample_store_ok in \<open>simp_all add: sample_cleanup_def iter_order_rev writeAll_err_def
          io_fine_def sample_store_def empty_store_def\<close>)
  then show ?thesis
    using r by (intro exI [of _ s'] exI [of _ m'] exI [of _ fs'])
      (simp add: sample_store_def empty_store_def sample_cleanup_def metrics_New_def)
qed

theorem removal_lost_at_Stop_witness:
  "\<exists>s2 m2 fs2. stop_and_flush io_fine append_fine ''t'' ''2024-01-01''
       (fst (store_Remove ''a.ir'' (sample_store, metrics_New 0)),
        snd (store_Remove ''a.ir'' (sample_store, metrics_New 0)), [''f'' \<mapsto> line_text [''a.ir'', ''b.org'']])
     = (s2, m2, fs2) \<and> ''a.ir'' \<notin> set (domains s2) \<and> ''a.ir'' \<in> reload_set ''f'' fs2"
proof -
  let ?f = "[''f'' \<mapsto> line_text [''a.ir'', ''b.org'']]"
  let ?R = "store_Remove ''a.ir'' (sample_store, metrics_New 0)"
  obtain s2 m2 fs2 where r: "stop_and_flush io_fine append_fine ''t'' ''2024-01-01''
      (fst ?R, snd ?R, ?f) = (s2, m2, fs2)" by (metis prod_cases3)
  have n: "normalize ''a.ir'' = ''a.ir''" by code_simp
  have l: "reload_set ''f'' ?f = {''a.ir'', ''b.org''}"
    using sample_store_ok(2) by (subst reload_line_text [of "[''a.ir'', ''b.org'']"])
      (auto simp: sample_store_def)
  have sp: "s_statePath sample_store \<noteq> s_file sample_store" using sample_store_ok by simp
  from removal_lost_at_Stop [OF sample_store_ok(1,6) sp sample_store_ok(5) _ r, of "''a.ir''" "metrics_New 0"]
  show ?thesis using r n l sample_store_ok(3) by auto
qed

theorem mixed_case_line_never_matches_witness:
  "\<exists>s. store_New False ''f'' True [] [''f'' \<mapsto> ''Example.ir''] = Inr s \<and> Count s = 1 \<and> \<not> store_IsIran s ''Example.ir''"
proof -
  let ?s = "(empty_store ''f'' True [])\<lparr>domains := [''Example.ir'']\<rparr>"
  have n: "store_New False ''f'' True [] [''f'' \<mapsto> ''Example.ir''] = Inr ?s" by code_simp
  have "ToLower ''Example.ir'' \<noteq> ''Example.ir''" by code_simp
  from mixed_case_line_never_matches [OF n _ this, of "''Example.ir''"] n show ?thesis by (simp add: Count_def)
qed

end
