(* ===== verification/Resolver_State.thy ===== *)
theory Resolver_State
  imports Circuit_Breaker Dns_Cache Classifier Domain_Store
begin

text \<open>
  Package \<open>internal/resolver\<close>, first part: the resolver's state, its construction, and the
  decisions that only read it. The struct \<open>Resolver\<close> is one record; the Go maps that serve as sets
  are lists of their members. Three more fields stand for what surrounds the struct: the package
  variable \<open>dnsIDCounter\<close>, the goroutines started and not yet run (\<open>pending\<close>), and the number of
  questions put to the environment so far (\<open>tick\<close>).

  The environment \<open>env\<close> answers everything the code does not decide itself, by the number of the
  question: what the network answers (\<open>e_exchange\<close>, \<^const>\<open>None\<close> for an error), what the clock
  shows, whether a context is done, which ready case a \<open>select\<close> takes, what the random source gives.
  Nothing is assumed about it, so a theorem about all environments covers every network, every
  timing and every choice of the scheduler.
\<close>

datatype pick = PickIran | PickGlobal | PickTimer | PickDone

record env =
  e_lib :: dns_lib
  e_exchange :: "nat \<Rightarrow> string \<Rightarrow> string \<Rightarrow> int \<Rightarrow> msg \<Rightarrow> msg option"
  e_clock :: "nat \<Rightarrow> int"
  e_done :: "nat \<Rightarrow> bool"
  e_pick :: "nat \<Rightarrow> pick"
  e_rand :: "nat \<Rightarrow> int \<Rightarrow> int"
  e_date :: "nat \<Rightarrow> string"
  e_order :: "(string \<times> entry) list \<Rightarrow> (string \<times> entry) list"

text \<open>A goroutine that \<open>resolveWithLearning\<close> started: which upstream, the context's deadline, the
  request.\<close>

datatype launched = Launched_Iran "int option" msg | Launched_Global "int option" msg

record resolver =
  r_classifier :: classifier
  r_store :: store
  r_cache :: cache
  iranDNS :: string
  globalDNS :: string
  r_timeout :: int
  r_globalTimeout :: int
  globalDNSFallback :: string
  r_metrics :: metrics
  iranTLDs :: "string list"
  hijackIPs :: "string list"
  hijackRanges :: "prefix list"
  preferIran :: "string list"
  staticRecords :: "(string \<times> addr) list"
  iranCb :: circuitBreaker
  globalCb :: circuitBreaker
  iranAddr :: string
  globalAddr :: string
  r_stopped :: bool
  r_active :: int
  dnsIDCounter :: "32 word"
  pending :: "launched list"
  tick :: nat

section \<open>Construction\<close>

definition resolveAddr :: "string \<Rightarrow> string" where
  "resolveAddr s =
     (if s = [] then []
      else case SplitHostPort s of None \<Rightarrow> JoinHostPort s ''53'' | Some _ \<Rightarrow> s)"

fun parse_ranges :: "string list \<Rightarrow> prefix list" where
  "parse_ranges [] = []"
| "parse_ranges (c # cs) =
     (case ParsePrefix c of None \<Rightarrow> parse_ranges cs | Some p \<Rightarrow> p # parse_ranges cs)"

definition resolver_New ::
  "classifier \<Rightarrow> store \<Rightarrow> string \<Rightarrow> string \<Rightarrow> string list \<Rightarrow> string list \<Rightarrow> string list \<Rightarrow> string list \<Rightarrow>
   32 word \<Rightarrow> 32 word \<Rightarrow> metrics \<Rightarrow> string \<Rightarrow> int \<Rightarrow> int \<Rightarrow> int \<Rightarrow> int \<Rightarrow> int \<Rightarrow> resolver" where
  "resolver_New c s iran glob tlds hijacks ranges prefer minTTL maxTTL m fallback maxEntries
     cbThreshold cbCooldown gThreshold gCooldown =
     \<lparr>r_classifier = c, r_store = s, r_cache = cache_New minTTL maxTTL maxEntries,
      iranDNS = iran, globalDNS = glob, r_timeout = 3 * second, r_globalTimeout = 1500 * millisecond,
      globalDNSFallback = fallback, r_metrics = m, iranTLDs = map ToLower tlds, hijackIPs = hijacks,
      hijackRanges = parse_ranges ranges, preferIran = map ToLower prefer, staticRecords = [],
      iranCb = new_breaker cbThreshold cbCooldown, globalCb = new_breaker gThreshold gCooldown,
      iranAddr = resolveAddr iran, globalAddr = resolveAddr glob, r_stopped = False, r_active = 0,
      dnsIDCounter = 0, pending = [], tick = 0\<rparr>"

definition SetTimeout :: "int \<Rightarrow> resolver \<Rightarrow> resolver" where
  "SetTimeout d r = r\<lparr>r_timeout := d\<rparr>"

definition SetGlobalTimeout :: "int \<Rightarrow> resolver \<Rightarrow> resolver" where
  "SetGlobalTimeout d r = r\<lparr>r_globalTimeout := d\<rparr>"

definition SetCBCooldown :: "int \<Rightarrow> resolver \<Rightarrow> resolver" where
  "SetCBCooldown d r = r\<lparr>iranCb := (iranCb r)\<lparr>cb_cooldown := d\<rparr>\<rparr>"

definition SetGlobalCBCooldown :: "int \<Rightarrow> resolver \<Rightarrow> resolver" where
  "SetGlobalCBCooldown d r = r\<lparr>globalCb := (globalCb r)\<lparr>cb_cooldown := d\<rparr>\<rparr>"

text \<open>The records of the configuration, in the order the map is iterated.\<close>

fun static_map :: "dns_lib \<Rightarrow> (string \<times> string) list \<Rightarrow> (string \<times> addr) list \<Rightarrow> (string \<times> addr) list" where
  "static_map L [] m = m"
| "static_map L ((domain, ipStr) # rs) m =
     static_map L rs (case ParseAddr ipStr of None \<Rightarrow> m
       | Some ip \<Rightarrow> put_key (ToLower (Fqdn L domain)) ip m)"

definition SetStaticRecords :: "dns_lib \<Rightarrow> (string \<times> string) list \<Rightarrow> resolver \<Rightarrow> resolver" where
  "SetStaticRecords L records r = r\<lparr>staticRecords := static_map L records []\<rparr>"

section \<open>Decisions\<close>

definition isIranTLD :: "resolver \<Rightarrow> string \<Rightarrow> bool" where
  "isIranTLD r domain = walk_up (\<lambda>d. d \<in> set (iranTLDs r)) (ToLower (TrimSuffix domain [DOT]))"

definition isPreferIran :: "resolver \<Rightarrow> string \<Rightarrow> bool" where
  "isPreferIran r domain = walk_up (\<lambda>d. d \<in> set (preferIran r)) (ToLower (TrimSuffix domain [DOT]))"

definition ip_hijacked :: "resolver \<Rightarrow> string \<Rightarrow> bool" where
  "ip_hijacked r ipStr \<longleftrightarrow> ipStr \<in> set (hijackIPs r)
     \<or> (case ParseAddr ipStr of None \<Rightarrow> False | Some ip \<Rightarrow> list_ex (\<lambda>n. Contains n ip) (hijackRanges r))"

definition isHijacked :: "resolver \<Rightarrow> string list \<Rightarrow> bool" where
  "isHijacked r ips = list_ex (ip_hijacked r) ips"

fun extract_rr :: "rr \<Rightarrow> string list" where
  "extract_rr (RR_A h a) = [IP_String a]"
| "extract_rr (RR_AAAA h a) = [IP_String a]"
| "extract_rr (RR_other h d) = []"

definition extractIPs :: "msg \<Rightarrow> string list" where
  "extractIPs m = concat (map extract_rr (mAnswer m))"

definition staticLookup :: "resolver \<Rightarrow> string \<Rightarrow> addr option" where
  "staticLookup r domain = map_of (staticRecords r) (ToLower domain)"

definition staticResponse :: "dns_lib \<Rightarrow> msg \<Rightarrow> question \<Rightarrow> addr \<Rightarrow> msg" where
  "staticResponse L req q ip =
     (let resp = (SetReply L new_Msg req)\<lparr>mAuthoritative := True\<rparr>
      in resp\<lparr>mAnswer := mAnswer resp @
           [RR_A \<lparr>hName = qName q, hRrtype = TypeA, hClass = ClassINET, hTtl = 300\<rparr> (AsSlice ip)]\<rparr>)"

section \<open>Steps on the shared state\<close>

definition tickup :: "resolver \<Rightarrow> resolver" where
  "tickup r = r\<lparr>tick := tick r + 1\<rparr>"

definition bump :: "counter \<Rightarrow> int \<Rightarrow> resolver \<Rightarrow> resolver" where
  "bump c d r = r\<lparr>r_metrics := inc c d (r_metrics r)\<rparr>"

text \<open>The callbacks \<open>onStateChange\<close> of the two breakers.\<close>

fun iran_change :: "cbState option \<Rightarrow> metrics \<Rightarrow> metrics" where
  "iran_change (Some cbOpen) m = put IranCBOpen 1 (inc IranCBTrips 1 m)"
| "iran_change (Some cbClosed) m = put IranCBOpen 0 m"
| "iran_change _ m = m"

fun global_change :: "cbState option \<Rightarrow> metrics \<Rightarrow> metrics" where
  "global_change (Some cbOpen) m = put GlobalCBOpen 1 (inc GlobalCBTrips 1 m)"
| "global_change (Some cbClosed) m = put GlobalCBOpen 0 m"
| "global_change _ m = m"

text \<open>\<open>randDNSID\<close>: the counter of the package, cut to 16 bits, without zero.\<close>

definition randDNSID :: "resolver \<Rightarrow> 16 word \<times> resolver" where
  "randDNSID r =
     (let n = dnsIDCounter r + 1; i = (ucast n :: 16 word)
      in (if i = 0 then 1 else i, r\<lparr>dnsIDCounter := n\<rparr>))"

section \<open>Lemmas\<close>

interpretation tld: suffix_matcher isIranTLD "\<lambda>r. set (iranTLDs r)"
  by unfold_locales (simp add: isIranTLD_def fold_name_def)

interpretation preferred: suffix_matcher isPreferIran "\<lambda>r. set (preferIran r)"
  by unfold_locales (simp add: isPreferIran_def fold_name_def)

text \<open>What stays fixed once the resolver is set up: everything that decides about answers.\<close>

definition same_config :: "resolver \<Rightarrow> resolver \<Rightarrow> bool" where
  "same_config r r' \<longleftrightarrow> iranDNS r' = iranDNS r \<and> globalDNS r' = globalDNS r
     \<and> globalDNSFallback r' = globalDNSFallback r \<and> iranTLDs r' = iranTLDs r
     \<and> hijackIPs r' = hijackIPs r \<and> hijackRanges r' = hijackRanges r \<and> preferIran r' = preferIran r
     \<and> staticRecords r' = staticRecords r \<and> iranAddr r' = iranAddr r \<and> globalAddr r' = globalAddr r
     \<and> r_classifier r' = r_classifier r \<and> r_timeout r' = r_timeout r
     \<and> r_globalTimeout r' = r_globalTimeout r"

lemma same_config_refl [simp]: "same_config r r"
  by (simp add: same_config_def)

lemma same_config_trans: "same_config r s \<Longrightarrow> same_config s t \<Longrightarrow> same_config r t"
  by (simp add: same_config_def)

lemma same_config_tickup [frame, simp]: "same_config r (tickup s) = same_config r s"
  by (simp add: same_config_def tickup_def)

lemma tickup_fields [frame, simp]:
  "r_store (tickup r) = r_store r" "r_cache (tickup r) = r_cache r" "r_metrics (tickup r) = r_metrics r"
  "globalDNS (tickup r) = globalDNS r" "iranDNS (tickup r) = iranDNS r" "iranCb (tickup r) = iranCb r"
  "globalCb (tickup r) = globalCb r" "r_active (tickup r) = r_active r" "pending (tickup r) = pending r"
  by (simp_all add: tickup_def)

lemma same_config_bump [frame, simp]: "same_config r (bump c d s) = same_config r s"
  by (simp add: same_config_def bump_def)

lemma same_config_id [frame, simp]: "same_config r (snd (randDNSID s)) = same_config r s"
  by (simp add: same_config_def randDNSID_def Let_def)

lemma same_config_hijacked: "same_config r s \<Longrightarrow> isHijacked s = isHijacked r"
  unfolding same_config_def isHijacked_def ip_hijacked_def by presburger

lemma isHijacked_iff: "isHijacked r ips \<longleftrightarrow> (\<exists>ip \<in> set ips. ip_hijacked r ip)"
  by (simp add: isHijacked_def list_ex_iff)

lemma isHijacked_Nil [simp]: "\<not> isHijacked r []"
  by (simp add: isHijacked_def)

lemma extractIPs_id [simp]: "extractIPs (m\<lparr>mId := i\<rparr>) = extractIPs m"
  by (simp add: extractIPs_def)

text \<open>The gauges and the breakers move together.\<close>

definition gauge_ok :: "resolver \<Rightarrow> bool" where
  "gauge_ok r \<longleftrightarrow>
     cnt (r_metrics r) IranCBOpen = (if cb_state (iranCb r) = cbClosed then 0 else 1)
   \<and> cnt (r_metrics r) GlobalCBOpen = (if cb_state (globalCb r) = cbClosed then 0 else 1)"

end
