(* ===== verification/Resolver_Query.thy ===== *)
theory Resolver_Query
  imports Resolver_State
begin

text \<open>
  Package \<open>internal/resolver\<close>, second part: the queries to the upstream servers (\<open>query\<close>,
  \<open>queryIranDNS\<close>, \<open>ValidateDomain\<close>, \<open>IranDNSHealthy\<close>). The request is a pointer the code writes
  through (the EDNS record and the identifier), so \<open>query\<close> also returns the request as it leaves it.
  The deadline of a context is an optional time; the pool of clients has no behaviour of its own.
  The lemmas say where an answer comes from (\<open>answered\<close>) and what a query leaves alone
  (\<open>net_step\<close>).
\<close>

section \<open>Definitions\<close>

definition with_port :: "string \<Rightarrow> string" where
  "with_port upstream =
     (case SplitHostPort upstream of None \<Rightarrow> JoinHostPort upstream ''53'' | Some _ \<Rightarrow> upstream)"

definition upstream_addr :: "resolver \<Rightarrow> string \<Rightarrow> string" where
  "upstream_addr r upstream =
     (if upstream = iranDNS r then iranAddr r
      else if upstream = globalDNS r then globalAddr r else with_port upstream)"

definition query_timeout :: "env \<Rightarrow> int option \<Rightarrow> bool \<Rightarrow> resolver \<Rightarrow> int \<times> resolver" where
  "query_timeout E ctx isIran r =
     (let timeout = (if \<not> isIran \<and> r_globalTimeout r > 0 then r_globalTimeout r else r_timeout r)
      in case ctx of None \<Rightarrow> (timeout, r)
         | Some deadline \<Rightarrow>
             let remaining = deadline - e_clock E (tick r)
             in (if remaining < timeout then remaining else timeout, tickup r))"

text \<open>The counters and the breaker after an exchange.\<close>

definition note_iran :: "env \<Rightarrow> bool \<Rightarrow> int \<Rightarrow> resolver \<Rightarrow> resolver" where
  "note_iran E err elapsed r0 =
     (let r = bump IranQueryCount 1 r0
      in if err then
           let r1 = bump IranTimeouts 1 r; (cb, ev) = recordFailure (e_clock E (tick r1)) (iranCb r1)
           in tickup (r1\<lparr>iranCb := cb, r_metrics := iran_change ev (r_metrics r1)\<rparr>)
         else
           let r1 = bump IranLatencyTotal elapsed r; (cb, ev) = recordSuccess (iranCb r1)
           in r1\<lparr>iranCb := cb, r_metrics := iran_change ev (r_metrics r1)\<rparr>)"

definition note_global :: "env \<Rightarrow> bool \<Rightarrow> int \<Rightarrow> resolver \<Rightarrow> resolver" where
  "note_global E err elapsed r0 =
     (let r = bump GlobalQueryCount 1 r0
      in if err then
           let r1 = bump GlobalTimeouts 1 r; (cb, ev) = recordFailure (e_clock E (tick r1)) (globalCb r1)
           in tickup (r1\<lparr>globalCb := cb, r_metrics := global_change ev (r_metrics r1)\<rparr>)
         else
           let r1 = bump GlobalLatencyTotal elapsed r; (cb, ev) = recordSuccess (globalCb r1)
           in r1\<lparr>globalCb := cb, r_metrics := global_change ev (r_metrics r1)\<rparr>)"

definition query_fallback :: "env \<Rightarrow> int \<Rightarrow> msg \<Rightarrow> resolver \<Rightarrow> msg option \<times> resolver" where
  "query_fallback E timeout req r =
     (let fbStart = e_clock E (tick r); r1 = tickup r;
          fbResp = e_exchange E (tick r1) ''udp'' (with_port (globalDNSFallback r1)) timeout req;
          r2 = tickup r1
      in case fbResp of None \<Rightarrow> (None, r2)
         | Some m \<Rightarrow>
             (Some m, tickup (bump GlobalFallbackLatencyTotal (e_clock E (tick r2) - fbStart)
                               (bump GlobalFallbackCount 1 r2))))"

definition query_tcp :: "env \<Rightarrow> int \<Rightarrow> string \<Rightarrow> msg \<Rightarrow> msg \<Rightarrow> resolver \<Rightarrow> msg \<times> resolver" where
  "query_tcp E timeout addr req resp r =
     (let r1 = bump TcpFallbackCount 1 r
      in case e_exchange E (tick r1) ''tcp'' addr timeout req of
           None \<Rightarrow> (resp, tickup r1) | Some m \<Rightarrow> (m, tickup r1))"

text \<open>From the exchange on: the counters and the breaker, then the second server or TCP.\<close>

definition query_send :: "env \<Rightarrow> bool \<Rightarrow> string \<Rightarrow> int \<Rightarrow> int \<Rightarrow> msg \<Rightarrow> resolver \<Rightarrow> msg option \<times> resolver" where
  "query_send E isIran addr timeout start req r =
     (let resp = e_exchange E (tick r) ''udp'' addr timeout req;
          r1 = tickup r;
          elapsed = e_clock E (tick r1) - start;
          r2 = (if isIran then note_iran E (resp = None) elapsed (tickup r1)
                else note_global E (resp = None) elapsed (tickup r1))
      in case resp of
           None \<Rightarrow> (if \<not> isIran \<and> globalDNSFallback r2 \<noteq> [] then query_fallback E timeout req r2
                     else (None, r2))
         | Some m \<Rightarrow> (if mTruncated m
                       then let (m', r3) = query_tcp E timeout addr req m r2 in (Some m', r3)
                       else (Some m, r2)))"

definition query :: "env \<Rightarrow> int option \<Rightarrow> msg \<Rightarrow> string \<Rightarrow> resolver \<Rightarrow> msg option \<times> msg \<times> resolver" where
  "query E ctx req upstream r =
     (if e_done E (tick r) then (None, req, tickup r)
      else let isIran = (upstream = iranDNS r);
               (timeout, r1) = query_timeout E ctx isIran (tickup r)
      in if timeout \<le> 0 then (None, req, r1)
      else let addr = upstream_addr r1 upstream;
               req1 = (if IsEdns0 (e_lib E) req then req else SetEdns0 (e_lib E) 1232 False req);
               start = e_clock E (tick r1);
               (i, r2) = randDNSID (tickup r1);
               req2 = req1\<lparr>mId := i\<rparr>;
               (m, r3) = query_send E isIran addr timeout start req2 r2
           in (m, req2, r3))"

definition queryIranDNS :: "env \<Rightarrow> int option \<Rightarrow> msg \<Rightarrow> resolver \<Rightarrow> msg option \<times> msg \<times> resolver" where
  "queryIranDNS E ctx req r =
     (if isOpen (iranCb r) then
        let (ok, cb) = tryProbe (e_clock E (tick r)) (iranCb r); r1 = tickup (r\<lparr>iranCb := cb\<rparr>)
        in if \<not> ok then (None, req, bump IranCBSkipped 1 r1)
           else query E ctx req (iranDNS r1) r1
      else query E ctx req (iranDNS r) r)"

definition ValidateDomain :: "env \<Rightarrow> string \<Rightarrow> resolver \<Rightarrow> bool \<times> resolver" where
  "ValidateDomain E domain r =
     (if r_stopped r then (True, r)
      else let req = SetQuestion (e_lib E) new_Msg (Fqdn (e_lib E) domain) TypeA;
               (i, r1) = randDNSID r
           in case e_exchange E (tick r1) ''udp'' (iranAddr r1) second (req\<lparr>mId := i\<rparr>) of
                None \<Rightarrow> (True, tickup r1)
              | Some resp \<Rightarrow> (mRcode resp \<noteq> RcodeNameError, tickup r1))"

text \<open>\<open>IranDNSHealthy\<close>: three attempts.\<close>

fun healthy_loop :: "env \<Rightarrow> nat \<Rightarrow> msg \<Rightarrow> resolver \<Rightarrow> bool \<times> resolver" where
  "healthy_loop E 0 req r = (False, r)"
| "healthy_loop E (Suc i) req r =
     (case e_exchange E (tick r) ''udp'' (iranAddr r) (2 * second) req of
        Some resp \<Rightarrow> if mRcode resp = RcodeSuccess then (True, tickup r) else healthy_loop E i req (tickup r)
      | None \<Rightarrow> healthy_loop E i req (tickup r))"

definition IranDNSHealthy :: "env \<Rightarrow> resolver \<Rightarrow> bool \<times> resolver" where
  "IranDNSHealthy E r =
     (if r_stopped r then (False, r)
      else let req = SetQuestion (e_lib E) new_Msg ''nic.ir.'' TypeA; (i, r1) = randDNSID r
           in healthy_loop E 3 (req\<lparr>mId := i\<rparr>) r1)"

section \<open>What a query leaves alone\<close>

fun net_counter :: "counter \<Rightarrow> bool" where
  "net_counter IranLatencyTotal = True" | "net_counter IranQueryCount = True"
| "net_counter IranTimeouts = True" | "net_counter GlobalLatencyTotal = True"
| "net_counter GlobalQueryCount = True" | "net_counter GlobalTimeouts = True"
| "net_counter TcpFallbackCount = True" | "net_counter GlobalFallbackCount = True"
| "net_counter GlobalFallbackLatencyTotal = True" | "net_counter IranCBSkipped = True"
| "net_counter IranCBTrips = True" | "net_counter IranCBOpen = True"
| "net_counter GlobalCBTrips = True" | "net_counter GlobalCBOpen = True"
| "net_counter GlobalCBSkipped = True" | "net_counter _ = False"

text \<open>A step that only talks to the network: configuration, store, cache, the bookkeeping of
  requests and every counter that is not about the network stay as they are, and the gauges keep
  agreeing with the breakers.\<close>

definition net_step :: "resolver \<Rightarrow> resolver \<Rightarrow> bool" where
  "net_step r r' \<longleftrightarrow> same_config r r' \<and> r_store r' = r_store r \<and> r_cache r' = r_cache r
     \<and> r_active r' = r_active r \<and> r_stopped r' = r_stopped r \<and> pending r' = pending r
     \<and> (\<forall>c. \<not> net_counter c \<longrightarrow> cnt (r_metrics r') c = cnt (r_metrics r) c)
     \<and> (gauge_ok r \<longrightarrow> gauge_ok r')"

lemma net_step_refl [simp]: "net_step r r"
  by (simp add: net_step_def)

lemma net_step_trans: "net_step r s \<Longrightarrow> net_step s t \<Longrightarrow> net_step r t"
  by (auto simp: net_step_def intro: same_config_trans)

lemma net_step_tickup [simp]: "net_step r (tickup s) = net_step r s"
  by (simp add: net_step_def gauge_ok_def same_config_def tickup_def)

lemma net_step_id [simp]: "net_step r (snd (randDNSID s)) = net_step r s"
  by (simp add: net_step_def gauge_ok_def same_config_def randDNSID_def Let_def)

lemma net_step_bump:
  "net_counter c \<Longrightarrow> c \<noteq> IranCBOpen \<Longrightarrow> c \<noteq> GlobalCBOpen \<Longrightarrow> net_step r s \<Longrightarrow> net_step r (bump c d s)"
  by (auto simp: net_step_def gauge_ok_def same_config_def bump_def counter_simps)

text \<open>A call of \<open>recordFailure\<close> or \<open>recordSuccess\<close> and the callback it makes.\<close>

definition breaker_event :: "circuitBreaker \<Rightarrow> circuitBreaker \<Rightarrow> cbState option \<Rightarrow> bool" where
  "breaker_event cb cb' ev \<longleftrightarrow> (ev = Some cbOpen \<and> cb_state cb' = cbOpen)
     \<or> (ev = Some cbClosed \<and> cb_state cb' = cbClosed) \<or> (ev = None \<and> cb_state cb' = cb_state cb)"

lemma breaker_event_record:
  "recordFailure t cb = (cb', ev) \<Longrightarrow> breaker_event cb cb' ev"
  "recordSuccess cb = (cb', ev) \<Longrightarrow> breaker_event cb cb' ev"
  by (auto simp: breaker_event_def recordFailure_def recordSuccess_def Let_def
      split: if_splits cbState.splits)

lemma net_step_breaker:
  assumes "net_step r s" "breaker_event (iranCb s) cb ev"
  shows "net_step r (s\<lparr>iranCb := cb, r_metrics := iran_change ev (r_metrics s)\<rparr>)"
proof (rule net_step_trans [OF assms(1)])
  show "net_step s (s\<lparr>iranCb := cb, r_metrics := iran_change ev (r_metrics s)\<rparr>)"
    using assms(2) unfolding breaker_event_def
    by (elim disjE conjE) (simp_all add: net_step_def same_config_def gauge_ok_def counter_simps)
qed

lemma net_step_global_breaker:
  assumes "net_step r s" "breaker_event (globalCb s) cb ev"
  shows "net_step r (s\<lparr>globalCb := cb, r_metrics := global_change ev (r_metrics s)\<rparr>)"
proof (rule net_step_trans [OF assms(1)])
  show "net_step s (s\<lparr>globalCb := cb, r_metrics := global_change ev (r_metrics s)\<rparr>)"
    using assms(2) unfolding breaker_event_def
    by (elim disjE conjE) (simp_all add: net_step_def same_config_def gauge_ok_def counter_simps)
qed

lemma net_step_note_iran: "net_step r s \<Longrightarrow> net_step r (note_iran E err el s)"
  by (auto simp: note_iran_def Let_def intro!: net_step_breaker net_step_bump
      dest: breaker_event_record split: prod.splits)

lemma net_step_note_global: "net_step r s \<Longrightarrow> net_step r (note_global E err el s)"
  by (auto simp: note_global_def Let_def intro!: net_step_global_breaker net_step_bump
      dest: breaker_event_record split: prod.splits)

lemma net_step_timeout: "net_step r (snd (query_timeout E ctx b s)) = net_step r s"
  by (simp add: query_timeout_def Let_def split: option.splits)

lemma net_step_fallback: "net_step r s \<Longrightarrow> net_step r (snd (query_fallback E t q s))"
  by (auto simp: query_fallback_def Let_def intro!: net_step_bump split: option.splits)

lemma net_step_tcp: "net_step r s \<Longrightarrow> net_step r (snd (query_tcp E t a q m s))"
  by (auto simp: query_tcp_def Let_def intro!: net_step_bump split: option.splits)

section \<open>Where an answer comes from\<close>

definition answered :: "env \<Rightarrow> string \<Rightarrow> msg \<Rightarrow> bool" where
  "answered E addr m \<longleftrightarrow> (\<exists>n net t q. e_exchange E n net addr t q = Some m)"

text \<open>The message is an answer of the Iranian server, or of the global one or its second server.\<close>

definition from_iran :: "env \<Rightarrow> resolver \<Rightarrow> msg \<Rightarrow> bool" where
  "from_iran E r m \<longleftrightarrow> answered E (iranAddr r) m"

definition from_global :: "env \<Rightarrow> resolver \<Rightarrow> msg \<Rightarrow> bool" where
  "from_global E r m \<longleftrightarrow> answered E (upstream_addr r (globalDNS r)) m
     \<or> (globalDNSFallback r \<noteq> [] \<and> answered E (with_port (globalDNSFallback r)) m)"

lemma from_config: "same_config r s \<Longrightarrow> from_iran E s = from_iran E r \<and> from_global E s = from_global E r"
  unfolding same_config_def from_iran_def from_global_def upstream_addr_def fun_eq_iff by presburger

lemma answeredI: "e_exchange E n net addr t q = Some m \<Longrightarrow> answered E addr m"
  by (auto simp: answered_def)

lemma query_fallback_answered:
  "query_fallback E t q r = (Some m, r') \<Longrightarrow> answered E (with_port (globalDNSFallback r)) m"
  by (auto simp: query_fallback_def Let_def tickup_def intro: answeredI split: option.splits)

lemma query_tcp_answered:
  "answered E addr x \<Longrightarrow> query_tcp E t addr q x r = (m, r') \<Longrightarrow> answered E addr m"
  by (auto simp: query_tcp_def Let_def intro: answeredI split: option.splits)

lemma query_send_spec:
  assumes "query_send E isIran addr timeout start req r = (m, r')"
  shows "net_step r r' \<and> (\<forall>x. m = Some x \<longrightarrow> answered E addr x
       \<or> (\<not> isIran \<and> globalDNSFallback r \<noteq> [] \<and> answered E (with_port (globalDNSFallback r)) x))"
proof -
  define resp where "resp = e_exchange E (tick r) ''udp'' addr timeout req"
  define r2 where "r2 = (if isIran then note_iran E (resp = None) (e_clock E (tick (tickup r)) - start) (tickup (tickup r))
        else note_global E (resp = None) (e_clock E (tick (tickup r)) - start) (tickup (tickup r)))"
  have n2: "net_step r r2" by (simp add: r2_def net_step_note_iran net_step_note_global)
  then have fb: "globalDNSFallback r2 = globalDNSFallback r" by (simp add: net_step_def same_config_def)
  have q: "(case resp of
       None \<Rightarrow> (if \<not> isIran \<and> globalDNSFallback r2 \<noteq> [] then query_fallback E timeout req r2 else (None, r2))
     | Some x \<Rightarrow> (if mTruncated x then let (m', r3) = query_tcp E timeout addr req x r2 in (Some m', r3)
                   else (Some x, r2))) = (m, r')"
    using assms unfolding query_send_def r2_def resp_def Let_def by simp
  show ?thesis
  proof (cases resp)
    case None
    then show ?thesis
      using q n2 fb net_step_fallback [OF n2, of E timeout req] query_fallback_answered [of E timeout req r2]
      by (auto split: if_splits)
  next
    case (Some x)
    then have "answered E addr x" by (auto simp: resp_def intro: answeredI)
    then show ?thesis
      using q n2 Some net_step_tcp [OF n2, of E timeout addr req x] query_tcp_answered [of E addr x timeout req r2]
      by (auto simp: Let_def split: if_splits prod.splits)
  qed
qed

lemma query_spec:
  assumes "query E ctx req up r = (m, req', r')"
  shows "net_step r r' \<and> (\<forall>x. m = Some x \<longrightarrow> answered E (upstream_addr r up) x
       \<or> (up \<noteq> iranDNS r \<and> globalDNSFallback r \<noteq> [] \<and> answered E (with_port (globalDNSFallback r)) x))"
proof (cases "e_done E (tick r)")
  case True
  then show ?thesis using assms by (auto simp: query_def)
next
  case False
  let ?i = "up = iranDNS r"
  obtain t r1 where t: "query_timeout E ctx ?i (tickup r) = (t, r1)" by fastforce
  obtain i r2 where i: "randDNSID (tickup r1) = (i, r2)" by fastforce
  have n1: "net_step r r1" using net_step_timeout [of r E ctx ?i "tickup r"] t by simp
  then have n2: "net_step r r2" using i net_step_id [of r "tickup r1"] by simp
  have c: "upstream_addr r1 up = upstream_addr r up" "globalDNSFallback r2 = globalDNSFallback r"
    using n1 n2 by (simp_all add: net_step_def same_config_def upstream_addr_def)
  show ?thesis
  proof (cases "t \<le> 0")
    case True
    then show ?thesis using assms False t n1 by (simp add: query_def)
  next
    case tpos: False
    obtain st q where "query_send E ?i (upstream_addr r1 up) t st q r2 = (m, r')"
      using assms False t i tpos by (auto simp: query_def Let_def split: prod.splits)
    from query_send_spec [OF this] n2 c show ?thesis by (auto intro: net_step_trans)
  qed
qed

lemma query_iran_spec:
  assumes "query E ctx req (iranDNS r) r = (m, req', r')"
  shows "net_step r r'" "m = Some x \<Longrightarrow> from_iran E r x"
  using query_spec [OF assms] by (auto simp: from_iran_def upstream_addr_def)

lemma query_global_spec:
  assumes "query E ctx req (globalDNS r) r = (m, req', r')"
  shows "net_step r r'" "m = Some x \<Longrightarrow> from_global E r x"
  using query_spec [OF assms] by (auto simp: from_global_def)

lemma net_step_probe: "tryProbe t (iranCb r) = (ok, cb) \<Longrightarrow> net_step r (r\<lparr>iranCb := cb\<rparr>)"
  by (auto simp: tryProbe_def net_step_def same_config_def gauge_ok_def split: if_splits)

lemma net_step_global_probe: "tryProbe t (globalCb r) = (ok, cb) \<Longrightarrow> net_step r (r\<lparr>globalCb := cb\<rparr>)"
  by (auto simp: tryProbe_def net_step_def same_config_def gauge_ok_def split: if_splits)

lemma queryIranDNS_spec:
  assumes "queryIranDNS E ctx req r = (m, req', r')"
  shows "net_step r r' \<and> (\<forall>x. m = Some x \<longrightarrow> from_iran E r x)"
proof (cases "isOpen (iranCb r)")
  case False
  then show ?thesis using assms query_iran_spec [of E ctx req r m req' r'] by (simp add: queryIranDNS_def)
next
  case True
  obtain ok cb where p: "tryProbe (e_clock E (tick r)) (iranCb r) = (ok, cb)" by fastforce
  let ?r1 = "tickup (r\<lparr>iranCb := cb\<rparr>)"
  have n1: "net_step r ?r1" using net_step_probe [OF p] by simp
  then have fi: "from_iran E ?r1 = from_iran E r" using from_config by (simp add: net_step_def)
  show ?thesis
  proof (cases ok)
    case False
    then show ?thesis using assms True p n1 by (auto simp: queryIranDNS_def intro: net_step_bump)
  next
    case ok: True
    then have "query E ctx req (iranDNS ?r1) ?r1 = (m, req', r')"
      using assms True p by (simp add: queryIranDNS_def Let_def)
    from query_iran_spec [OF this] fi net_step_trans [OF n1] show ?thesis by simp
  qed
qed

end
