(* ===== verification/Resolver_Learning.thy ===== *)
theory Resolver_Learning
  imports Resolver_Query "HOL-Library.Monad_Syntax"
begin

text \<open>
  Package \<open>internal/resolver\<close>, third part: \<open>resolveWithLearning\<close>, the race between the Iranian and
  the global server. Its two goroutines are the flags \<open>l_iranOut\<close> and \<open>l_globalOut\<close>: the goroutine
  is started and its channel not yet read. Each \<open>select\<close> is a call of \<open>await\<close> with the cases it has;
  the environment picks one, and the effects of a goroutine happen when its message is received. A
  goroutine whose message is never received is left in \<open>pending\<close>; \<open>run_launched\<close> runs it later.

  \<open>await\<close> is \<^const>\<open>None\<close> when the picked case cannot be ready: a channel no goroutine will write to,
  or a case the \<open>select\<close> does not have. So \<open>resolveWithLearning E ctx req domain r = Some (m, r')\<close>
  says that this run of the code exists and returns \<open>m\<close>.
\<close>

section \<open>Definitions\<close>

record learn =
  l_iranMsg :: "msg option"
  l_globalMsg :: "msg option"
  l_iranOut :: bool
  l_globalOut :: bool

datatype wake = Woke | Expired | Cancelled

definition await ::
  "env \<Rightarrow> int option \<Rightarrow> pick list \<Rightarrow> msg \<Rightarrow> learn \<Rightarrow> resolver \<Rightarrow> (wake \<times> learn \<times> resolver) option" where
  "await E ctx alts req l r0 =
     (let p = e_pick E (tick r0); r = tickup r0
      in if p \<notin> set alts then None
         else case p of
           PickIran \<Rightarrow> (if \<not> l_iranOut l then None
             else let (m, _, r') = queryIranDNS E ctx req r
                  in Some (Woke, l\<lparr>l_iranMsg := m, l_iranOut := False\<rparr>, r'))
         | PickGlobal \<Rightarrow> (if \<not> l_globalOut l then None
             else let (m, _, r') = query E ctx req (globalDNS r) r
                  in Some (Woke, l\<lparr>l_globalMsg := m, l_globalOut := False\<rparr>, r'))
         | PickTimer \<Rightarrow> Some (Expired, l, r)
         | PickDone \<Rightarrow> Some (Cancelled, l, r))"

definition leave :: "int option \<Rightarrow> msg \<Rightarrow> learn \<Rightarrow> resolver \<Rightarrow> resolver" where
  "leave ctx req l r = r\<lparr>pending := pending r @ (if l_globalOut l then [Launched_Global ctx req] else [])
                                     @ (if l_iranOut l then [Launched_Iran ctx req] else [])\<rparr>"

definition run_launched :: "env \<Rightarrow> launched \<Rightarrow> resolver \<Rightarrow> resolver" where
  "run_launched E p r =
     (case p of Launched_Iran ctx req \<Rightarrow> snd (snd (queryIranDNS E ctx req r))
      | Launched_Global ctx req \<Rightarrow> snd (snd (query E ctx req (globalDNS r) r)))"

text \<open>The time \<open>resolveWithLearning\<close> gives the slower server once the faster one has answered.\<close>

definition shortWait :: "resolver \<Rightarrow> int" where
  "shortWait r =
     (let w = (if r_globalTimeout r \<le> 0 then quot64 (r_timeout r) 4 else quot64 (r_globalTimeout r) 4)
      in if w < 100 * millisecond then 100 * millisecond else w)"

definition address_type :: "16 word \<Rightarrow> bool" where
  "address_type t \<longleftrightarrow> t = TypeA \<or> t = TypeAAAA"

definition first_type :: "msg \<Rightarrow> 16 word" where
  "first_type req = qType (hd (mQuestion req))"

text \<open>The test of an answer of the Iranian server.\<close>

definition iran_verified :: "resolver \<Rightarrow> msg \<Rightarrow> bool" where
  "iran_verified r m =
     (let ips = extractIPs m
      in ips \<noteq> [] \<and> \<not> isHijacked r ips \<and> list_ex (classifier_IsIran (r_classifier r)) ips)"

definition learn_domain :: "env \<Rightarrow> string \<Rightarrow> resolver \<Rightarrow> resolver" where
  "learn_domain E domain r =
     (let (s, m) = store_Add (e_date E (tick r)) domain (r_store r, r_metrics r)
      in tickup (r\<lparr>r_store := s, r_metrics := m\<rparr>))"

fun learn_each :: "env \<Rightarrow> string \<Rightarrow> string list \<Rightarrow> resolver \<Rightarrow> resolver" where
  "learn_each E domain [] r = r"
| "learn_each E domain (ip # ips) r =
     learn_each E domain ips
       (if classifier_IsIran (r_classifier r) ip then learn_domain E domain r else r)"

definition learn_start :: "env \<Rightarrow> bool \<Rightarrow> resolver \<Rightarrow> bool \<times> resolver" where
  "learn_start E needGlobal r =
     (if needGlobal \<and> isOpen (globalCb r) then
        let (ok, cb) = tryProbe (e_clock E (tick r)) (globalCb r); r1 = tickup (r\<lparr>globalCb := cb\<rparr>)
        in if ok then (True, r1) else (False, bump GlobalCBSkipped 1 r1)
      else (needGlobal, r))"

text \<open>The three ways the code goes on after the two first selects.\<close>

definition learn_iran ::
  "env \<Rightarrow> int option \<Rightarrow> msg \<Rightarrow> string \<Rightarrow> bool \<Rightarrow> msg \<Rightarrow> learn \<Rightarrow> resolver \<Rightarrow> (msg \<times> resolver) option" where
  "learn_iran E ctx req domain globalStarted m l r =
     (if \<not> address_type (first_type req) then Some (m, leave ctx req l (bump QueriesIran 1 r))
      else if iran_verified r m
      then Some (m, leave ctx req l (bump QueriesIran 1 (learn_domain E domain r)))
      else do {
        (l', r') \<leftarrow> (if globalStarted
           then do { (w, l', r') \<leftarrow> await E ctx [PickGlobal, PickTimer] req l r;
                     Some (l', if w = Expired then bump ShortWaitExpired 1 r' else r') }
           else Some (l, bump ShortWaitExpired 1 r));
        Some (case l_globalMsg l' of
            Some g \<Rightarrow> (g, leave ctx req l' (bump QueriesGlobal 1 r'))
          | None \<Rightarrow> (ServerFail (e_lib E) (Some req), leave ctx req l' r'))
      })"

definition learn_global ::
  "env \<Rightarrow> int option \<Rightarrow> msg \<Rightarrow> string \<Rightarrow> bool \<Rightarrow> msg \<Rightarrow> learn \<Rightarrow> resolver \<Rightarrow> (msg \<times> resolver) option" where
  "learn_global E ctx req domain iranOpen g l r =
     do {
       (l', r') \<leftarrow> (if iranOpen then Some (l, r)
          else do { (w, l', r') \<leftarrow> await E ctx [PickIran, PickTimer] req l r;
                    Some (l', case (w, l_iranMsg l') of
                        (Woke, Some im) \<Rightarrow>
                          (let ips = extractIPs im
                           in if ips \<noteq> [] \<and> \<not> isHijacked r' ips then learn_each E domain ips r' else r')
                      | _ \<Rightarrow> r') });
       Some (g, leave ctx req l' (bump QueriesGlobal 1 r'))
     }"

definition learn_none ::
  "env \<Rightarrow> int option \<Rightarrow> msg \<Rightarrow> bool \<Rightarrow> learn \<Rightarrow> resolver \<Rightarrow> (msg \<times> resolver) option" where
  "learn_none E ctx req needGlobal l r =
     (if needGlobal then Some (ServerFail (e_lib E) (Some req), leave ctx req l r)
      else let deadline = e_clock E (tick r) + r_globalTimeout r;
               (m, _, r') = query E (Some deadline) req (globalDNS r) (tickup r)
           in Some (case m of Some g \<Rightarrow> (g, leave ctx req l (bump QueriesGlobal 1 r'))
                    | None \<Rightarrow> (ServerFail (e_lib E) (Some req), leave ctx req l r')))"

definition resolveWithLearning ::
  "env \<Rightarrow> int option \<Rightarrow> msg \<Rightarrow> string \<Rightarrow> resolver \<Rightarrow> (msg \<times> resolver) option" where
  "resolveWithLearning E ctx req domain r =
     (let iranOpen = isOpen (iranCb r);
          needGlobal = (address_type (first_type req) \<or> iranOpen);
          (globalStarted, r0) = learn_start E needGlobal r;
          l0 = \<lparr>l_iranMsg = None, l_globalMsg = None, l_iranOut = \<not> iranOpen, l_globalOut = globalStarted\<rparr>
      in do {
        (w1, l1, r1) \<leftarrow> await E ctx [PickIran, PickGlobal, PickDone] req l0 r0;
        (w2, l2, r2) \<leftarrow> (if w1 \<noteq> Cancelled \<and> l_iranMsg l1 = None \<and> l_globalMsg l1 = None
           then await E ctx [PickIran, PickGlobal, PickTimer, PickDone] req l1 r1
           else Some (w1, l1, r1));
        if w2 = Cancelled then Some (ServerFail (e_lib E) (Some req), leave ctx req l2 r2)
        else case (l_iranMsg l2, l_globalMsg l2) of
            (Some m, _) \<Rightarrow> learn_iran E ctx req domain globalStarted m l2 r2
          | (None, Some g) \<Rightarrow> learn_global E ctx req domain iranOpen g l2 r2
          | (None, None) \<Rightarrow> learn_none E ctx req needGlobal l2 r2
      })"

section \<open>What a run leaves alone\<close>

text \<open>The counters that only the entry points touch.\<close>

fun front_counter :: "counter \<Rightarrow> bool" where
  "front_counter QueriesTotal = True" | "front_counter QueriesRetried = True"
| "front_counter QueriesServfail = True" | "front_counter QueriesCached = True"
| "front_counter CacheMiss = True" | "front_counter PathTLD = True"
| "front_counter PathPreferIran = True" | "front_counter PathStore = True"
| "front_counter PathLearn = True" | "front_counter PathStatic = True"
| "front_counter InFlightQueries = True" | "front_counter QueriesRateLimited = True"
| "front_counter QueriesGlobalLimited = True" | "front_counter LoopDetections = True"
| "front_counter _ = False"

definition serve_step :: "resolver \<Rightarrow> resolver \<Rightarrow> bool" where
  "serve_step r r' \<longleftrightarrow> same_config r r' \<and> r_cache r' = r_cache r \<and> r_active r' = r_active r
     \<and> r_stopped r' = r_stopped r
     \<and> (\<forall>c. front_counter c \<longrightarrow> cnt (r_metrics r') c = cnt (r_metrics r) c)
     \<and> (gauge_ok r \<longrightarrow> gauge_ok r') \<and> (store_inv (r_store r) \<longrightarrow> store_inv (r_store r'))"

lemma serve_step_refl [simp]: "serve_step r r"
  by (simp add: serve_step_def)

lemma serve_step_trans: "serve_step r s \<Longrightarrow> serve_step s t \<Longrightarrow> serve_step r t"
  by (auto simp: serve_step_def intro: same_config_trans)

lemma front_not_net: "front_counter c \<Longrightarrow> \<not> net_counter c"
  by (cases c) simp_all

lemma serve_step_net: "net_step s t \<Longrightarrow> serve_step s t"
  by (simp add: net_step_def serve_step_def front_not_net)

lemma serve_step_net_trans: "serve_step r s \<Longrightarrow> net_step s t \<Longrightarrow> serve_step r t"
  by (blast intro: serve_step_trans serve_step_net)

lemma serve_step_bump:
  "\<not> front_counter c \<Longrightarrow> c \<noteq> IranCBOpen \<Longrightarrow> c \<noteq> GlobalCBOpen \<Longrightarrow> serve_step r s \<Longrightarrow> serve_step r (bump c d s)"
  by (auto simp: serve_step_def bump_def same_config_def gauge_ok_def counter_simps)

lemma serve_step_leave [simp]: "serve_step r (leave ctx req l s) = serve_step r s"
  by (simp add: serve_step_def leave_def same_config_def gauge_ok_def)

lemma serve_step_tickup [simp]: "serve_step r (tickup s) = serve_step r s"
  by (simp add: serve_step_def tickup_def same_config_def gauge_ok_def)

lemma store_Add_counters: "c \<noteq> LearnedTotal \<Longrightarrow> cnt (snd (store_Add t d (s, m))) c = cnt m c"
  by (simp add: store_Add_def Let_def counter_simps)

lemma serve_step_learn_domain: "serve_step r s \<Longrightarrow> serve_step r (learn_domain E d s)"
proof (rule serve_step_trans)
  have "cnt (snd (store_Add t d (r_store s, r_metrics s))) c = cnt (r_metrics s) c"
    if "front_counter c \<or> c = IranCBOpen \<or> c = GlobalCBOpen" for t c
    using that by (intro store_Add_counters) auto
  then show "serve_step s (learn_domain E d s)"
    using store_Add_inv [of "r_store s" "e_date E (tick s)" d "r_metrics s"]
    by (auto simp: learn_domain_def Let_def case_prod_unfold serve_step_def same_config_def gauge_ok_def tickup_def)
qed

lemma serve_step_learn_each: "serve_step r s \<Longrightarrow> serve_step r (learn_each E d ips s)"
  by (induction E d ips s rule: learn_each.induct) (auto simp: serve_step_learn_domain)

section \<open>What a run returns and learns\<close>

text \<open>There is an answer of the Iranian server that passed the test.\<close>

definition evidence :: "env \<Rightarrow> resolver \<Rightarrow> bool" where
  "evidence E r \<longleftrightarrow> (\<exists>m. from_iran E r m \<and> iran_verified r m)"

text \<open>The store may only gain the domain of the request, and only with evidence.\<close>

definition learn_run :: "env \<Rightarrow> string \<Rightarrow> resolver \<Rightarrow> resolver \<Rightarrow> bool" where
  "learn_run E domain r r' \<longleftrightarrow> serve_step r r'
     \<and> (set (domains (r_store r')) = set (domains (r_store r))
        \<or> (evidence E r \<and> set (domains (r_store r')) = insert (normalize domain) (set (domains (r_store r)))))"

definition learn_ok :: "env \<Rightarrow> resolver \<Rightarrow> learn \<Rightarrow> bool" where
  "learn_ok E r l \<longleftrightarrow> (\<forall>x. l_iranMsg l = Some x \<longrightarrow> from_iran E r x)
     \<and> (\<forall>x. l_globalMsg l = Some x \<longrightarrow> from_global E r x)"

lemma learn_run_refl [simp]: "learn_run E d r r"
  by (simp add: learn_run_def)

lemma learn_run_net: "learn_run E d r s \<Longrightarrow> net_step s t \<Longrightarrow> learn_run E d r t"
  by (auto simp: learn_run_def net_step_def [of s t] intro: serve_step_net_trans [unfolded net_step_def])

lemma learn_run_bump:
  "\<not> front_counter c \<Longrightarrow> c \<noteq> IranCBOpen \<Longrightarrow> c \<noteq> GlobalCBOpen \<Longrightarrow> learn_run E d r s \<Longrightarrow> learn_run E d r (bump c n s)"
  using serve_step_bump [of c r s n] by (auto simp: learn_run_def bump_def)

lemma learn_run_leave [simp]: "learn_run E d r (leave ctx req l s) = learn_run E d r s"
  by (simp add: learn_run_def leave_def serve_step_leave [unfolded leave_def])

lemma learn_run_tickup [simp]: "learn_run E d r (tickup s) = learn_run E d r s"
  by (simp add: learn_run_def)

lemma learn_run_learn:
  assumes "learn_run E d r s" "evidence E r"
  shows "learn_run E d r (learn_domain E d s)"
  using assms serve_step_learn_domain [of r s E d]
  by (auto simp: learn_run_def learn_domain_def Let_def case_prod_unfold tickup_def store_Add_domains)

lemma learn_run_learn_each:
  "learn_run E d r s \<Longrightarrow> (\<exists>ip \<in> set ips. classifier_IsIran (r_classifier r) ip) \<longrightarrow> evidence E r \<Longrightarrow>
   learn_run E d r (learn_each E d ips s)"
proof (induction E d ips s rule: learn_each.induct)
  case (2 E d ip ips s)
  have "r_classifier s = r_classifier r"
    using 2(2) by (simp add: learn_run_def serve_step_def same_config_def)
  with 2 show ?case by (auto simp: learn_run_learn)
qed simp

lemma config_verified: "same_config r s \<Longrightarrow> iran_verified s = iran_verified r"
  using same_config_hijacked [of r s] by (simp add: fun_eq_iff iran_verified_def Let_def same_config_def)

lemma learn_run_config: "learn_run E d r s \<Longrightarrow> same_config r s"
  by (simp add: learn_run_def serve_step_def)

lemma await_spec:
  assumes "await E ctx alts req l s = Some (w, l', s')" "learn_ok E r l" "learn_run E d r s"
  shows "learn_ok E r l' \<and> learn_run E d r s'"
proof -
  have c: "from_iran E (tickup s) = from_iran E r" "from_global E (tickup s) = from_global E r"
    using learn_run_config [OF assms(3)] from_config [of r "tickup s"] by simp_all
  have t: "learn_run E d r (tickup s)" using assms(3) by simp
  show ?thesis
  proof (cases "e_pick E (tick s)")
    case PickIran
    obtain m q s1 where m: "queryIranDNS E ctx req (tickup s) = (m, q, s1)" by (metis prod_cases3)
    have "l' = l\<lparr>l_iranMsg := m, l_iranOut := False\<rparr>" "s' = s1"
      using assms(1) PickIran m by (auto simp: await_def Let_def split: if_splits)
    then show ?thesis
      using queryIranDNS_spec [OF m] assms(2) c learn_run_net [OF t] by (simp add: learn_ok_def)
  next
    case PickGlobal
    obtain m q s1 where m: "query E ctx req (globalDNS (tickup s)) (tickup s) = (m, q, s1)" by (metis prod_cases3)
    have "l' = l\<lparr>l_globalMsg := m, l_globalOut := False\<rparr>" "s' = s1"
      using assms(1) PickGlobal m by (auto simp: await_def Let_def split: if_splits)
    then show ?thesis
      using query_global_spec [OF m] assms(2) c learn_run_net [OF t] by (simp add: learn_ok_def)
  next
    case PickTimer
    then show ?thesis using assms t by (auto simp: await_def Let_def split: if_splits)
  next
    case PickDone
    then show ?thesis using assms t by (auto simp: await_def Let_def split: if_splits)
  qed
qed

text \<open>What \<open>resolveWithLearning\<close> may answer.\<close>

definition learn_answer_ok :: "env \<Rightarrow> resolver \<Rightarrow> msg \<Rightarrow> msg \<Rightarrow> bool" where
  "learn_answer_ok E r req m \<longleftrightarrow> m = ServerFail (e_lib E) (Some req) \<or> from_global E r m
     \<or> (from_iran E r m \<and> (address_type (first_type req) \<longrightarrow> iran_verified r m))"

lemma learn_iran_spec:
  assumes "learn_iran E ctx req d gs m l s = Some (x, s')" "learn_ok E r l" "learn_run E d r s" "from_iran E r m"
  shows "learn_answer_ok E r req x \<and> learn_run E d r s'"
proof -
  have v: "iran_verified s = iran_verified r" using config_verified learn_run_config [OF assms(3)] by blast
  have bumped: "learn_run E d r (bump ShortWaitExpired 1 t)" if "learn_run E d r t" for t
    using that by (simp add: learn_run_bump)
  consider (other) "\<not> address_type (first_type req)"
    | (ok) "address_type (first_type req)" "iran_verified s m"
    | (no) "address_type (first_type req)" "\<not> iran_verified s m" by blast
  then show ?thesis
  proof cases
    case other
    then show ?thesis using assms by (auto simp: learn_iran_def learn_answer_ok_def learn_run_bump)
  next
    case ok
    then have "evidence E r" using v assms(4) by (auto simp: evidence_def)
    then show ?thesis using assms ok v
      by (auto simp: learn_iran_def learn_answer_ok_def learn_run_bump learn_run_learn)
  next
    case no
    obtain l' t where lt: "learn_ok E r l'" "learn_run E d r t"
      and x: "(x, s') = (case l_globalMsg l' of Some g \<Rightarrow> (g, leave ctx req l' (bump QueriesGlobal 1 t))
          | None \<Rightarrow> (ServerFail (e_lib E) (Some req), leave ctx req l' t))"
    proof (cases gs)
      case True
      then obtain w l' t where a: "await E ctx [PickGlobal, PickTimer] req l s = Some (w, l', t)"
        and x: "(x, s') = (case l_globalMsg l' of
            Some g \<Rightarrow> (g, leave ctx req l' (bump QueriesGlobal 1 (if w = Expired then bump ShortWaitExpired 1 t else t)))
          | None \<Rightarrow> (ServerFail (e_lib E) (Some req), leave ctx req l' (if w = Expired then bump ShortWaitExpired 1 t else t)))"
        using assms(1) no by (auto simp: learn_iran_def bind_eq_Some_conv)
      from await_spec [OF a assms(2,3)] bumped [of t] x that show ?thesis by (simp split: if_splits)
    next
      case False
      then have "(x, s') = (case l_globalMsg l of
            Some g \<Rightarrow> (g, leave ctx req l (bump QueriesGlobal 1 (bump ShortWaitExpired 1 s)))
          | None \<Rightarrow> (ServerFail (e_lib E) (Some req), leave ctx req l (bump ShortWaitExpired 1 s)))"
        using assms(1) no by (simp add: learn_iran_def)
      with that assms(2) bumped [OF assms(3)] show ?thesis by blast
    qed
    then show ?thesis
      by (auto simp: learn_answer_ok_def learn_ok_def learn_run_bump split: option.splits)
  qed
qed

lemma learn_global_spec:
  assumes "learn_global E ctx req d io g l s = Some (x, s')" "learn_ok E r l" "learn_run E d r s" "from_global E r g"
  shows "learn_answer_ok E r req x \<and> learn_run E d r s'"
proof -
  obtain l' t where t: "learn_run E d r t" and x: "x = g" "s' = leave ctx req l' (bump QueriesGlobal 1 t)"
  proof (cases io)
    case True
    then show ?thesis using that [of s l] assms by (simp add: learn_global_def)
  next
    case False
    then obtain w l' u where a: "await E ctx [PickIran, PickTimer] req l s = Some (w, l', u)"
      and x: "x = g" "s' = leave ctx req l' (bump QueriesGlobal 1 (case (w, l_iranMsg l') of
          (Woke, Some im) \<Rightarrow> (let ips = extractIPs im
             in if ips \<noteq> [] \<and> \<not> isHijacked u ips then learn_each E d ips u else u) | _ \<Rightarrow> u))"
      using assms(1) by (auto simp: learn_global_def bind_eq_Some_conv)
    have lt: "learn_ok E r l'" "learn_run E d r u" using await_spec [OF a assms(2,3)] by auto
    have "learn_run E d r (learn_each E d (extractIPs im) u)"
      if "l_iranMsg l' = Some im" "extractIPs im \<noteq> []" "\<not> isHijacked u (extractIPs im)" for im
    proof (rule learn_run_learn_each [OF lt(2)], rule impI)
      assume "\<exists>ip \<in> set (extractIPs im). classifier_IsIran (r_classifier r) ip"
      then have "iran_verified r im"
        using that same_config_hijacked [OF learn_run_config [OF lt(2)]]
        by (auto simp: iran_verified_def list_ex_iff)
      then show "evidence E r" using that lt(1) by (auto simp: evidence_def learn_ok_def)
    qed
    then show ?thesis
      using that x lt(2) by (simp add: Let_def split: wake.splits option.splits if_splits)
  qed
  then show ?thesis using assms(4) by (simp add: learn_answer_ok_def learn_run_bump)
qed

lemma learn_none_spec:
  assumes "learn_none E ctx req ng l s = Some (x, s')" "learn_run E d r s"
  shows "learn_answer_ok E r req x \<and> learn_run E d r s'"
proof (cases ng)
  case True
  then show ?thesis using assms by (auto simp: learn_none_def learn_answer_ok_def)
next
  case False
  let ?c = "Some (e_clock E (tick s) + r_globalTimeout s)"
  obtain m q t where m: "query E ?c req (globalDNS (tickup s)) (tickup s) = (m, q, t)"
    by (metis prod_cases3)
  have "from_global E (tickup s) = from_global E r"
    using learn_run_config [OF assms(2)] from_config [of r "tickup s"] by simp
  moreover have "learn_run E d r t"
    using learn_run_net [of E d r "tickup s" t] assms(2) query_global_spec(1) [OF m] by simp
  moreover have "(x, s') = (case m of Some g \<Rightarrow> (g, leave ctx req l (bump QueriesGlobal 1 t))
        | None \<Rightarrow> (ServerFail (e_lib E) (Some req), leave ctx req l t))"
    using assms(1) False m by (simp add: learn_none_def)
  ultimately show ?thesis
    using query_global_spec(2) [OF m]
    by (auto simp: learn_answer_ok_def learn_run_bump split: option.splits)
qed

lemma learn_start_net: "learn_start E ng r = (gs, r0) \<Longrightarrow> net_step r r0"
  by (auto simp: learn_start_def Let_def net_step_global_probe intro!: net_step_bump split: if_splits prod.splits)

lemma resolveWithLearning_spec:
  assumes "resolveWithLearning E ctx req d r = Some (x, s')"
  shows "learn_answer_ok E r req x \<and> learn_run E d r s'"
proof -
  let ?io = "isOpen (iranCb r)"
  let ?ng = "address_type (first_type req) \<or> ?io"
  obtain gs r0 where s: "learn_start E ?ng r = (gs, r0)" by fastforce
  let ?l0 = "\<lparr>l_iranMsg = None, l_globalMsg = None, l_iranOut = \<not> ?io, l_globalOut = gs\<rparr>"
  have 0: "learn_ok E r ?l0" "learn_run E d r r0"
    using learn_run_net [OF learn_run_refl learn_start_net [OF s]] by (simp_all add: learn_ok_def)
  obtain w1 l1 r1 where a1: "await E ctx [PickIran, PickGlobal, PickDone] req ?l0 r0 = Some (w1, l1, r1)"
    using assms s by (auto simp: resolveWithLearning_def Let_def bind_eq_Some_conv)
  note 1 = await_spec [OF a1 0]
  let ?two = "w1 \<noteq> Cancelled \<and> l_iranMsg l1 = None \<and> l_globalMsg l1 = None"
  obtain w2 l2 r2 where
    a2: "(if ?two then await E ctx [PickIran, PickGlobal, PickTimer, PickDone] req l1 r1
          else Some (w1, l1, r1)) = Some (w2, l2, r2)"
    and x: "(if w2 = Cancelled then Some (ServerFail (e_lib E) (Some req), leave ctx req l2 r2)
        else case (l_iranMsg l2, l_globalMsg l2) of
            (Some m, _) \<Rightarrow> learn_iran E ctx req d gs m l2 r2
          | (None, Some g) \<Rightarrow> learn_global E ctx req d ?io g l2 r2
          | (None, None) \<Rightarrow> learn_none E ctx req ?ng l2 r2) = Some (x, s')"
    using assms s a1 by (auto simp: resolveWithLearning_def Let_def bind_eq_Some_conv)
  have 2: "learn_ok E r l2" "learn_run E d r r2"
    using a2 1 await_spec [of E ctx "[PickIran, PickGlobal, PickTimer, PickDone]" req l1 r1 w2 l2 r2 r d]
    by (auto split: if_splits)
  show ?thesis
  proof (cases "w2 = Cancelled")
    case True
    then show ?thesis using x 2 by (auto simp: learn_answer_ok_def)
  next
    case False
    then show ?thesis
      using x 2 learn_iran_spec [OF _ 2] learn_global_spec [OF _ 2] learn_none_spec [OF _ 2(2)]
      by (auto simp: learn_ok_def split: option.splits)
  qed
qed

text \<open>
  The learning path never passes on an unverified Iranian answer: whatever the two servers
  answer and in whatever order, the answer to an address query is the global server's (or its second
  server's), or an Iranian answer that holds at least one address, none of them hijacked and one of
  them in the Iranian ranges, or SERVFAIL.
\<close>

theorem learning_never_returns_unverified:
  assumes "resolveWithLearning E ctx req domain r = Some (m, r')" "address_type (first_type req)"
  shows "m = ServerFail (e_lib E) (Some req) \<or> from_global E r m
     \<or> (from_iran E r m \<and> extractIPs m \<noteq> [] \<and> \<not> isHijacked r (extractIPs m)
        \<and> (\<exists>ip \<in> set (extractIPs m). classifier_IsIran (r_classifier r) ip))"
  using resolveWithLearning_spec [OF assms(1)] assms(2)
  by (auto simp: learn_answer_ok_def iran_verified_def Let_def list_ex_iff)

text \<open>
  C8. A domain is learned only with evidence: a run of the learning path leaves the set of learned
  domains as it was, or adds the domain of the request, and then the Iranian server has given an
  answer with an address in the Iranian ranges and no hijacked address.
\<close>

theorem learns_only_with_evidence:
  assumes "resolveWithLearning E ctx req domain r = Some (m, r')"
  shows "set (domains (r_store r')) = set (domains (r_store r))
     \<or> (set (domains (r_store r')) = insert (normalize domain) (set (domains (r_store r)))
        \<and> (\<exists>a. from_iran E r a \<and> \<not> isHijacked r (extractIPs a)
              \<and> (\<exists>ip \<in> set (extractIPs a). classifier_IsIran (r_classifier r) ip)))"
  using resolveWithLearning_spec [OF assms]
  by (auto simp: learn_run_def evidence_def iran_verified_def Let_def list_ex_iff)

end
