(* ===== verification/Resolver_Resolve.thy ===== *)
theory Resolver_Resolve
  imports Resolver_Learning
begin

text \<open>
  Package \<open>internal/resolver\<close>, fourth part: \<open>resolve\<close> (which path a domain takes), the entry point
  \<open>Resolve\<close> and \<open>Stop\<close>. As before \<^const>\<open>None\<close> means that the run the environment picks does not
  exist; a nil response is the inner \<^const>\<open>None\<close>, and \<open>Panic\<close> is a panic that leaves \<open>Resolve\<close>.
  \<open>singleflight.Group.Do\<close> lets one caller per key run the function and gives the others its result:
  the argument \<open>shared\<close> of \<open>Resolve\<close> is that result for a caller that does not run it itself.
  The two fields \<open>stopped\<close> and \<open>stopCh\<close> change together and are one flag.
\<close>

section \<open>Definitions\<close>

definition via_global :: "env \<Rightarrow> int option \<Rightarrow> msg \<Rightarrow> resolver \<Rightarrow> (msg option \<times> resolver) option" where
  "via_global E ctx req r =
     (let (m, _, r') = query E ctx req (globalDNS r) (bump QueriesGlobal 1 r) in Some (m, r'))"

definition resolve_tld ::
  "env \<Rightarrow> int option \<Rightarrow> msg \<Rightarrow> resolver \<Rightarrow> (msg option \<times> resolver) option" where
  "resolve_tld E ctx req r =
     (let (resp, req1, r1) = queryIranDNS E ctx req (bump PathTLD 1 r)
      in case resp of None \<Rightarrow> via_global E ctx req1 r1
         | Some m \<Rightarrow>
             if mRcode m \<noteq> RcodeSuccess then via_global E ctx req1 r1
             else let ips = extractIPs m
                  in if ips \<noteq> [] \<and> isHijacked r1 ips then via_global E ctx req1 r1
                     else Some (Some m, bump QueriesIran 1 r1))"

definition resolve_prefer ::
  "env \<Rightarrow> int option \<Rightarrow> msg \<Rightarrow> resolver \<Rightarrow> (msg option \<times> resolver) option" where
  "resolve_prefer E ctx req r =
     (let (resp, req1, r1) = queryIranDNS E ctx req (bump PathPreferIran 1 r)
      in case resp of None \<Rightarrow> via_global E ctx req1 r1
         | Some m \<Rightarrow>
             let ips = extractIPs m
             in if mRcode m = RcodeSuccess \<and> ips \<noteq> [] \<and> \<not> isHijacked r1 ips
                then Some (Some m, bump QueriesIran 1 r1)
                else via_global E ctx req1 r1)"

definition forget_domain :: "string \<Rightarrow> resolver \<Rightarrow> resolver" where
  "forget_domain domain r =
     (let (s, m) = store_Remove domain (r_store r, r_metrics r) in r\<lparr>r_store := s, r_metrics := m\<rparr>)"

definition resolve_store ::
  "env \<Rightarrow> int option \<Rightarrow> msg \<Rightarrow> string \<Rightarrow> resolver \<Rightarrow> (msg option \<times> resolver) option" where
  "resolve_store E ctx req domain r =
     (let (resp, req1, r1) = query E ctx req (iranDNS r) (bump PathStore 1 r)
      in case resp of None \<Rightarrow> via_global E ctx req1 r1
         | Some m \<Rightarrow>
             if mRcode m = RcodeNameError
             then do { (x, r2) \<leftarrow> resolveWithLearning E ctx req domain (forget_domain domain r1);
                       Some (Some x, r2) }
             else if mRcode m \<noteq> RcodeSuccess then via_global E ctx req1 r1
             else let ips = extractIPs m
                  in if ips \<noteq> [] \<and> isHijacked r1 ips then via_global E ctx req1 r1
                     else Some (Some m, bump QueriesIran 1 r1))"

definition resolve ::
  "env \<Rightarrow> int option \<Rightarrow> msg \<Rightarrow> string \<Rightarrow> resolver \<Rightarrow> (msg option \<times> resolver) option" where
  "resolve E ctx req domain r =
     (if isIranTLD r domain then resolve_tld E ctx req r
      else if isPreferIran r domain then resolve_prefer E ctx req r
      else if store_IsIran (r_store r) domain then resolve_store E ctx req domain r
      else do { (x, r') \<leftarrow> resolveWithLearning E ctx req domain (bump PathLearn 1 r);
                Some (Some x, r') })"

text \<open>The pause before the retry; \<open>rand.Int63n\<close> panics when its argument is not positive.\<close>

definition retry_jitter :: "(int \<Rightarrow> int) \<Rightarrow> int \<Rightarrow> int option" where
  "retry_jitter rnd timeout =
     (let n = quot64 timeout 30 in if n \<le> 0 then None else Some (quot64 timeout 15 + rnd n))"

definition failed :: "msg option \<Rightarrow> bool" where
  "failed resp \<longleftrightarrow> (case resp of None \<Rightarrow> True | Some m \<Rightarrow> mRcode m = RcodeServerFailure)"

definition flight_end :: "env \<Rightarrow> msg \<Rightarrow> msg option \<Rightarrow> resolver \<Rightarrow> msg \<times> resolver" where
  "flight_end E req resp r =
     (case resp of
        None \<Rightarrow> (ServerFail (e_lib E) (Some req), bump QueriesServfail 1 r)
      | Some m \<Rightarrow>
          if mRcode m = RcodeServerFailure then (m, bump QueriesServfail 1 r)
          else (m, tickup (r\<lparr>r_cache := cache_Set (e_lib E) (e_order E) (e_clock E (tick r)) (Some req)
                              (Some m) (r_cache r)\<rparr>)))"

text \<open>The function \<open>singleflight\<close> runs; no message: it panics.\<close>

definition flight ::
  "env \<Rightarrow> int option \<Rightarrow> msg \<Rightarrow> string \<Rightarrow> resolver \<Rightarrow> (msg option \<times> resolver) option" where
  "flight E ctx req domain r =
     do {
       (resp, r1) \<leftarrow> resolve E ctx req domain r;
       if failed resp then
         let r2 = bump QueriesRetried 1 r1
         in case retry_jitter (e_rand E (tick r2)) (r_timeout r2) of
              None \<Rightarrow> Some (None, tickup r2)
            | Some jitter \<Rightarrow> do {
                (resp', r3) \<leftarrow> resolve E ctx req domain (tickup r2);
                let (m, r4) = flight_end E req resp' r3;
                Some (Some m, r4) }
       else let (m, r4) = flight_end E req resp r1 in Some (Some m, r4)
     }"

datatype reply = Reply msg | Panic

definition Resolve_miss ::
  "env \<Rightarrow> int option \<Rightarrow> msg option \<Rightarrow> msg \<Rightarrow> question \<Rightarrow> resolver \<Rightarrow> (reply \<times> resolver) option" where
  "Resolve_miss E ctx shared req q r0 =
     (let r = bump CacheMiss 1 r0; origID = mId req
      in case shared of
           Some v \<Rightarrow> Some (Reply (v\<lparr>mId := origID\<rparr>), r)
         | None \<Rightarrow> do {
             (v, r') \<leftarrow> flight E ctx req (qName q) r;
             Some (case v of None \<Rightarrow> Panic | Some m \<Rightarrow> Reply (m\<lparr>mId := origID\<rparr>), r') })"

definition Resolve_body ::
  "env \<Rightarrow> int option \<Rightarrow> msg option \<Rightarrow> msg \<Rightarrow> question \<Rightarrow> resolver \<Rightarrow> (reply \<times> resolver) option" where
  "Resolve_body E ctx shared req q r0 =
     (let r = bump QueriesTotal 1 r0
      in case (if qType q = TypeA then staticLookup r (qName q) else None) of
           Some ip \<Rightarrow> Some (Reply (staticResponse (e_lib E) req q ip), bump PathStatic 1 r)
         | None \<Rightarrow>
             let (cached, c) = cache_Get (e_lib E) (e_clock E (tick r)) (e_clock E (tick r + 1)) (Some req) (r_cache r);
                 r1 = tickup (tickup (r\<lparr>r_cache := c\<rparr>))
             in case cached of
                  Some m \<Rightarrow> Some (Reply m, bump QueriesCached 1 r1)
                | None \<Rightarrow> Resolve_miss E ctx shared req q r1)"

definition enter :: "resolver \<Rightarrow> resolver" where
  "enter r = (bump InFlightQueries 1 r)\<lparr>r_active := r_active r + 1\<rparr>"

definition exit_call :: "resolver \<Rightarrow> resolver" where
  "exit_call r = (bump InFlightQueries (- 1) r)\<lparr>r_active := r_active r - 1\<rparr>"

definition Resolve ::
  "env \<Rightarrow> int option \<Rightarrow> msg option \<Rightarrow> msg option \<Rightarrow> resolver \<Rightarrow> (reply \<times> resolver) option" where
  "Resolve E ctx shared req r =
     (if r_stopped r then Some (Reply (ServerFail (e_lib E) req), r)
      else do {
        (v, r') \<leftarrow> (case req of
             None \<Rightarrow> Some (Reply (ServerFail (e_lib E) None), enter r)
           | Some m \<Rightarrow> (case mQuestion m of
               [] \<Rightarrow> Some (Reply (ServerFail (e_lib E) req), enter r)
             | q # _ \<Rightarrow> Resolve_body E ctx shared m q (enter r)));
        Some (v, exit_call r')
      })"

text \<open>\<open>Stop\<close>: the flag is set, then the loop polls \<open>active\<close> until it is zero or 30 seconds have
  passed; \<open>active i\<close> and \<open>clock i\<close> are what the \<open>i\<close>th poll reads. The result is the number of polls.\<close>

function stop_wait :: "(nat \<Rightarrow> int) \<Rightarrow> (nat \<Rightarrow> int) \<Rightarrow> int \<Rightarrow> nat \<Rightarrow> nat \<Rightarrow> nat option" where
  "stop_wait active clock deadline i fuel =
     (if fuel = 0 then None
      else if active i \<le> 0 then Some i
      else if clock i > deadline then Some i
      else stop_wait active clock deadline (i + 1) (fuel - 1))"
  by pat_completeness auto
termination
  by (relation "measure (\<lambda>(a, c, d, i, fuel). fuel)") auto

declare stop_wait.simps [simp del]

definition resolver_Stop :: "resolver \<Rightarrow> resolver" where
  "resolver_Stop r = r\<lparr>r_stopped := True, r_cache := cache_Stop (r_cache r)\<rparr>"

section \<open>What \<open>resolve\<close> returns\<close>

text \<open>An answer that may be given to an address query.\<close>

definition good :: "env \<Rightarrow> resolver \<Rightarrow> msg \<Rightarrow> bool" where
  "good E r m \<longleftrightarrow> from_global E r m \<or> (from_iran E r m \<and> \<not> isHijacked r (extractIPs m))"

definition answer_ok :: "env \<Rightarrow> resolver \<Rightarrow> msg \<Rightarrow> msg \<Rightarrow> bool" where
  "answer_ok E r req m \<longleftrightarrow> m = ServerFail (e_lib E) (Some req)
     \<or> (address_type (first_type req) \<longrightarrow> good E r m)"

lemma good_config: "same_config r s \<Longrightarrow> good E s = good E r"
  using from_config [of r s E] same_config_hijacked [of r s] by (simp add: good_def fun_eq_iff)

lemma learn_answer_good: "learn_answer_ok E r req m \<Longrightarrow> answer_ok E r req m"
  by (auto simp: learn_answer_ok_def answer_ok_def good_def iran_verified_def Let_def)

section \<open>What \<open>resolve\<close> leaves alone\<close>

definition path_sum :: "resolver \<Rightarrow> int" where
  "path_sum r = cnt (r_metrics r) PathTLD + cnt (r_metrics r) PathPreferIran
     + cnt (r_metrics r) PathStore + cnt (r_metrics r) PathLearn"

fun entry_counter :: "counter \<Rightarrow> bool" where
  "entry_counter QueriesTotal = True" | "entry_counter QueriesRetried = True"
| "entry_counter QueriesServfail = True" | "entry_counter QueriesCached = True"
| "entry_counter CacheMiss = True" | "entry_counter PathStatic = True"
| "entry_counter InFlightQueries = True" | "entry_counter LoopDetections = True"
| "entry_counter QueriesGlobalLimited = True" | "entry_counter QueriesRateLimited = True"
| "entry_counter _ = False"

text \<open>A step on which \<open>n\<close> paths were taken and the entry point's own counters did not move.\<close>

definition path_step :: "int \<Rightarrow> resolver \<Rightarrow> resolver \<Rightarrow> bool" where
  "path_step n r r' \<longleftrightarrow> same_config r r' \<and> r_cache r' = r_cache r \<and> r_active r' = r_active r
     \<and> r_stopped r' = r_stopped r
     \<and> (\<forall>c. entry_counter c \<longrightarrow> cnt (r_metrics r') c = cnt (r_metrics r) c)
     \<and> path_sum r' = path_sum r + n
     \<and> (gauge_ok r \<longrightarrow> gauge_ok r') \<and> (store_inv (r_store r) \<longrightarrow> store_inv (r_store r'))"

lemma entry_front: "entry_counter c \<Longrightarrow> front_counter c"
  by (cases c) simp_all

lemma path_step_serve: "path_step n r s \<Longrightarrow> serve_step s t \<Longrightarrow> path_step n r t"
  by (auto simp: path_step_def serve_step_def entry_front path_sum_def intro: same_config_trans)

lemma path_step_bump:
  "c \<in> {PathTLD, PathPreferIran, PathStore, PathLearn} \<Longrightarrow> path_step 1 r (bump c 1 r)"
  by (auto simp: path_step_def path_sum_def bump_def same_config_def gauge_ok_def counter_simps)

lemma path_step_config: "path_step n r s \<Longrightarrow> same_config r s"
  by (simp add: path_step_def)

lemma via_global_spec:
  assumes "via_global E ctx req r = Some (resp, r')"
  shows "serve_step r r' \<and> (\<forall>m. resp = Some m \<longrightarrow> from_global E r m)"
proof -
  let ?r = "bump QueriesGlobal 1 r"
  obtain m q t where m: "query E ctx req (globalDNS ?r) ?r = (m, q, t)" by (metis prod_cases3)
  have "globalDNS ?r = globalDNS r" by (simp add: bump_def)
  then have "resp = m" "r' = t" using assms m by (auto simp: via_global_def)
  moreover have "serve_step r ?r" by (simp add: serve_step_bump)
  moreover have "from_global E ?r = from_global E r" using from_config [of r ?r E] by simp
  ultimately show ?thesis
    using query_global_spec [OF m] by (auto intro: serve_step_net_trans)
qed

lemma via_global_step:
  assumes "via_global E ctx req s = Some (resp, r')" "path_step n r s"
  shows "path_step n r r' \<and> (\<forall>m. resp = Some m \<longrightarrow> answer_ok E r req0 m)"
  using via_global_spec [OF assms(1)] path_step_serve [OF assms(2)] path_step_config [OF assms(2)]
    from_config [of r s E]
  by (simp add: answer_ok_def good_def)

lemma iran_step:
  assumes "path_step n r s" "from_iran E r m" "\<not> isHijacked s (extractIPs m)"
  shows "path_step n r (bump QueriesIran 1 s) \<and> answer_ok E r req m"
  using assms path_step_serve [OF assms(1) serve_step_bump [OF _ _ _ serve_step_refl]]
    same_config_hijacked [OF path_step_config [OF assms(1)]]
  by (simp add: answer_ok_def good_def)

lemma path_step_net: "path_step n r s \<Longrightarrow> net_step s t \<Longrightarrow> path_step n r t"
  by (blast intro: path_step_serve serve_step_net)

lemma resolve_tld_spec:
  assumes "resolve_tld E ctx req r = Some (resp, r')"
  shows "path_step 1 r r' \<and> (\<forall>m. resp = Some m \<longrightarrow> answer_ok E r req m)"
proof -
  let ?r = "bump PathTLD 1 r"
  obtain m q s where m: "queryIranDNS E ctx req ?r = (m, q, s)" by (metis prod_cases3)
  have s: "path_step 1 r s" and fi: "\<And>x. m = Some x \<Longrightarrow> from_iran E r x"
    using queryIranDNS_spec [OF m] path_step_net [OF path_step_bump [of PathTLD r]] from_config [of r ?r E] by auto
  show ?thesis
    using assms m iran_step [OF s] fi via_global_step [OF _ s]
    by (auto simp: resolve_tld_def Let_def split: option.splits if_splits)
qed

lemma resolve_prefer_spec:
  assumes "resolve_prefer E ctx req r = Some (resp, r')"
  shows "path_step 1 r r' \<and> (\<forall>m. resp = Some m \<longrightarrow> answer_ok E r req m)"
proof -
  let ?r = "bump PathPreferIran 1 r"
  obtain m q s where m: "queryIranDNS E ctx req ?r = (m, q, s)" by (metis prod_cases3)
  have s: "path_step 1 r s" and fi: "\<And>x. m = Some x \<Longrightarrow> from_iran E r x"
    using queryIranDNS_spec [OF m] path_step_net [OF path_step_bump [of PathPreferIran r]] from_config [of r ?r E]
    by auto
  show ?thesis
    using assms m iran_step [OF s] fi via_global_step [OF _ s]
    by (auto simp: resolve_prefer_def Let_def split: option.splits if_splits)
qed

lemma learning_step:
  assumes "resolveWithLearning E ctx req d s = Some (x, r')" "path_step n r s"
  shows "path_step n r r' \<and> answer_ok E r req x"
proof -
  have "answer_ok E s req x" "learn_run E d s r'"
    using resolveWithLearning_spec [OF assms(1)] learn_answer_good by blast+
  then show ?thesis
    using path_step_serve [OF assms(2)] good_config [OF path_step_config [OF assms(2)]]
    by (simp add: answer_ok_def learn_run_def)
qed

lemma store_Remove_counters: "c \<noteq> StoreRemoved \<Longrightarrow> cnt (snd (store_Remove d (s, m))) c = cnt m c"
  by (simp add: store_Remove_def Let_def counter_simps)

lemma serve_step_forget: "serve_step r (forget_domain d r)"
proof -
  have "cnt (snd (store_Remove d (r_store r, r_metrics r))) c = cnt (r_metrics r) c"
    if "front_counter c \<or> c = IranCBOpen \<or> c = GlobalCBOpen" for c
    using that by (intro store_Remove_counters) auto
  then show ?thesis
    using store_Remove_inv [of "r_store r" d "r_metrics r"]
    by (auto simp: forget_domain_def Let_def case_prod_unfold serve_step_def same_config_def gauge_ok_def)
qed

lemma resolve_store_spec:
  assumes "resolve_store E ctx req d r = Some (resp, r')"
  shows "path_step 1 r r' \<and> (\<forall>m. resp = Some m \<longrightarrow> answer_ok E r req m)"
proof -
  let ?r = "bump PathStore 1 r"
  have id: "iranDNS ?r = iranDNS r" by (simp add: bump_def)
  obtain m q s where m: "query E ctx req (iranDNS ?r) ?r = (m, q, s)" by (metis prod_cases3)
  have s: "path_step 1 r s" and fi: "\<And>x. m = Some x \<Longrightarrow> from_iran E r x"
    using query_iran_spec [OF m] path_step_net [OF path_step_bump [of PathStore r]] from_config [of r ?r E] by auto
  have f: "path_step 1 r (forget_domain d s)" using path_step_serve [OF s serve_step_forget] .
  show ?thesis
    using assms m id iran_step [OF s] fi via_global_step [OF _ s] learning_step [OF _ f]
    by (auto simp: resolve_store_def Let_def bind_eq_Some_conv split: option.splits if_splits)
qed

lemma resolve_spec:
  assumes "resolve E ctx req d r = Some (resp, r')"
  shows "path_step 1 r r' \<and> (\<forall>m. resp = Some m \<longrightarrow> answer_ok E r req m)"
  using assms resolve_tld_spec [of E ctx req r resp r'] resolve_prefer_spec [of E ctx req r resp r']
    resolve_store_spec [of E ctx req d r resp r'] learning_step [OF _ path_step_bump [of PathLearn r], of E ctx req d]
  by (auto simp: resolve_def bind_eq_Some_conv split: if_splits)

text \<open>
  C7. No path of the resolver answers an address query with a hijacked address of the Iranian server:
  the answer of \<open>resolve\<close>, if there is one, is SERVFAIL, or the global server's (or its second
  server's), or an Iranian answer without any hijacked address.
\<close>

theorem resolve_never_returns_hijacked:
  assumes "resolve E ctx req domain r = Some (Some m, r')" "address_type (first_type req)"
  shows "m = ServerFail (e_lib E) (Some req) \<or> from_global E r m
     \<or> (from_iran E r m \<and> \<not> isHijacked r (extractIPs m))"
  using resolve_spec [OF assms(1)] assms(2) by (auto simp: answer_ok_def good_def)

section \<open>What \<open>Resolve\<close> returns\<close>

definition safe_entry :: "env \<Rightarrow> resolver \<Rightarrow> string \<Rightarrow> msg \<Rightarrow> bool" where
  "safe_entry E r k m \<longleftrightarrow> (\<forall>q. makeKey (e_lib E) (Some q) = k \<longrightarrow> mQuestion q \<noteq> [] \<longrightarrow>
      address_type (first_type q) \<longrightarrow> good E r m)"

text \<open>Everything the cache would serve to an address query is an answer that may be given to one.\<close>

definition cache_safe :: "env \<Rightarrow> resolver \<Rightarrow> bool" where
  "cache_safe E r \<longleftrightarrow> (\<forall>(k, m) \<in> stored (r_cache r). safe_entry E r k m)"

text \<open>What a flight may hand to the callers that wait for it.\<close>

definition flight_ok :: "env \<Rightarrow> resolver \<Rightarrow> msg \<Rightarrow> msg \<Rightarrow> bool" where
  "flight_ok E r req m \<longleftrightarrow> (mRcode m = RcodeServerFailure \<and> mAnswer m = []) \<or> (address_type (first_type req) \<longrightarrow> good E r m)"

lemma makeKey_type:
  assumes "lib_types_ok L" "makeKey L (Some q) = makeKey L (Some q')" "mQuestion q \<noteq> []" "mQuestion q' \<noteq> []"
    and "address_type (first_type q)"
  shows "address_type (first_type q')"
proof -
  obtain x xs y ys where q: "mQuestion q = x # xs" "mQuestion q' = y # ys"
    using assms(3,4) by (meson list.exhaust)
  then have "TypeToString L (qType x) = TypeToString L (qType y)"
    using makeKey_eq [OF assms(1) q] assms(2) by simp
  moreover have "TypeToString L (qType x) \<noteq> []"
    using assms(1,5) q(1) by (auto simp: lib_types_ok_def address_type_def first_type_def)
  ultimately have "qType x = qType y" using assms(1) unfolding lib_types_ok_def by blast
  then show ?thesis using assms(5) q by (simp add: address_type_def first_type_def)
qed

lemma cache_safe_holds: "cache_safe E r \<longleftrightarrow> rc.holds (safe_entry E r) (r_cache r)"
  by (simp add: cache_safe_def rc.holds_def)

lemma safe_entry_config: "same_config r s \<Longrightarrow> safe_entry E s = safe_entry E r"
  using good_config [of r s E] by (simp add: fun_eq_iff safe_entry_def)

lemma cache_safe_step: "same_config r s \<Longrightarrow> r_cache s = r_cache r \<Longrightarrow> cache_safe E s = cache_safe E r"
  by (simp add: cache_safe_def safe_entry_config)

lemma safe_entry_answer:
  assumes "lib_types_ok (e_lib E)" "answer_ok E r req m" "mRcode m \<noteq> RcodeServerFailure" "mQuestion req \<noteq> []"
  shows "safe_entry E r (makeKey (e_lib E) (Some req)) m"
  unfolding safe_entry_def
proof (intro allI impI)
  fix q assume q: "makeKey (e_lib E) (Some q) = makeKey (e_lib E) (Some req)" "mQuestion q \<noteq> []"
    "address_type (first_type q)"
  have "address_type (first_type req)" using makeKey_type [OF assms(1) q(1,2) assms(4) q(3)] .
  then show "good E r m" using assms(2,3) by (auto simp: answer_ok_def)
qed

text \<open>The bookkeeping of a step inside \<open>Resolve\<close>: \<open>p\<close> paths, of which \<open>t\<close> retries.\<close>

definition flight_step :: "int \<Rightarrow> int \<Rightarrow> resolver \<Rightarrow> resolver \<Rightarrow> bool" where
  "flight_step p t r r' \<longleftrightarrow> same_config r r' \<and> r_active r' = r_active r \<and> r_stopped r' = r_stopped r
     \<and> (\<forall>c \<in> {QueriesTotal, QueriesCached, CacheMiss, PathStatic, InFlightQueries, LoopDetections,
              QueriesGlobalLimited, QueriesRateLimited}.
          cnt (r_metrics r') c = cnt (r_metrics r) c)
     \<and> path_sum r' = path_sum r + p \<and> cnt (r_metrics r') QueriesRetried = cnt (r_metrics r) QueriesRetried + t
     \<and> (gauge_ok r \<longrightarrow> gauge_ok r') \<and> (store_inv (r_store r) \<longrightarrow> store_inv (r_store r'))"

lemma flight_step_path: "flight_step p t r s \<Longrightarrow> path_step n s u \<Longrightarrow> flight_step (p + n) t r u"
  by (auto simp: flight_step_def path_step_def intro: same_config_trans)

lemma flight_step_start: "path_step n r s \<Longrightarrow> flight_step n 0 r s"
  by (auto simp: flight_step_def path_step_def)

lemma flight_step_retry: "flight_step p t r s \<Longrightarrow> flight_step p (t + 1) r (tickup (bump QueriesRetried 1 s))"
  by (auto simp: flight_step_def bump_def tickup_def same_config_def path_sum_def gauge_ok_def counter_simps)

lemma flight_end_spec:
  assumes "flight_end E req resp s = (m, s')" "\<And>x. resp = Some x \<Longrightarrow> answer_ok E r req x"
    "flight_step p t r s" "cache_safe E s" "lib_types_ok (e_lib E)" "mQuestion req \<noteq> []" "lib_reply_ok (e_lib E)"
  shows "flight_ok E r req m \<and> flight_step p t r s' \<and> cache_safe E s'"
proof -
  have c: "same_config r s" using assms(3) by (simp add: flight_step_def)
  have sf: "flight_step p t r (bump QueriesServfail 1 s)" "cache_safe E (bump QueriesServfail 1 s)"
    using assms(3,4) cache_safe_step [of s "bump QueriesServfail 1 s" E]
    by (auto simp: flight_step_def bump_def same_config_def path_sum_def gauge_ok_def counter_simps)
  show ?thesis
  proof (cases "failed resp")
    case True
    moreover have "flight_ok E r req m"
      using True assms(1,2) ServerFail_reply [OF assms(7)]
      by (auto simp: failed_def flight_end_def flight_ok_def answer_ok_def split: option.splits)
    ultimately show ?thesis using assms(1) sf by (auto simp: failed_def flight_end_def split: option.splits)
  next
    case False
    then obtain x where x: "resp = Some x" "mRcode x \<noteq> RcodeServerFailure"
      by (auto simp: failed_def split: option.splits)
    let ?c = "cache_Set (e_lib E) (e_order E) (e_clock E (tick s)) (Some req) (Some x) (r_cache s)"
    have m: "m = x" and s': "s' = tickup (s\<lparr>r_cache := ?c\<rparr>)"
      using assms(1) x by (auto simp: flight_end_def)
    have "safe_entry E s (makeKey (e_lib E) (Some req)) x"
      using safe_entry_answer [OF assms(5) assms(2) [OF x(1)] x(2) assms(6)] safe_entry_config [OF c] by simp
    then have "rc.holds (safe_entry E s) ?c"
      using rc.holds_set [where L = "e_lib E" and ord = "e_order E"] assms(4) by (simp add: cache_safe_holds)
    moreover have "safe_entry E s' = safe_entry E s"
      by (rule safe_entry_config) (simp add: s' same_config_def tickup_def)
    ultimately have "cache_safe E s'" by (simp add: cache_safe_holds s')
    moreover have "flight_step p t r s'"
      using assms(3) by (auto simp: s' flight_step_def same_config_def path_sum_def gauge_ok_def tickup_def)
    ultimately show ?thesis using assms(2) [OF x(1)] x m by (auto simp: flight_ok_def answer_ok_def)
  qed
qed

lemma flight_spec:
  assumes "flight E ctx req d r = Some (v, r')" "cache_safe E r" "lib_types_ok (e_lib E)" "mQuestion req \<noteq> []"
    "lib_reply_ok (e_lib E)"
  shows "cache_safe E r' \<and> (\<forall>m. v = Some m \<longrightarrow> flight_ok E r req m)
     \<and> (\<exists>t. flight_step (t + 1) t r r' \<or> (v = None \<and> flight_step t t r r'))"
proof -
  obtain resp r1 where r1: "resolve E ctx req d r = Some (resp, r1)"
    using assms(1) by (auto simp: flight_def bind_eq_Some_conv)
  note sp1 = resolve_spec [OF r1]
  have fs1: "flight_step 1 0 r r1" and cs1: "cache_safe E r1"
    using sp1 flight_step_start assms(2) cache_safe_step [of r r1 E] by (auto simp: path_step_def)
  show ?thesis
  proof (cases "failed resp")
    case False
    obtain m s where e: "flight_end E req resp r1 = (m, s)" by fastforce
    then have "v = Some m" "r' = s" using assms(1) r1 False by (auto simp: flight_def)
    then show ?thesis
      using flight_end_spec [OF e _ fs1 cs1 assms(3-5)] sp1 by (intro conjI exI [of _ 0]) auto
  next
    case True
    let ?r2 = "tickup (bump QueriesRetried 1 r1)"
    have fs2: "flight_step 1 1 r ?r2" using flight_step_retry [OF fs1] by simp
    have cs2: "cache_safe E ?r2" using cs1 cache_safe_step [of r1 ?r2 E] by (simp add: bump_def tickup_def same_config_def)
    show ?thesis
    proof (cases "retry_jitter (e_rand E (tick (bump QueriesRetried 1 r1))) (r_timeout (bump QueriesRetried 1 r1))")
      case None
      then have "v = None" "r' = ?r2" using assms(1) r1 True by (auto simp: flight_def Let_def)
      then show ?thesis using fs2 cs2 by (intro conjI exI [of _ 1]) auto
    next
      case (Some j)
      then obtain resp' r3 where r3: "resolve E ctx req d ?r2 = Some (resp', r3)"
        and fe: "(case flight_end E req resp' r3 of (m, r4) \<Rightarrow> Some (Some m, r4)) = Some (v, r')"
        using assms(1) r1 True by (auto simp: flight_def Let_def bind_eq_Some_conv)
      obtain m s where e: "flight_end E req resp' r3 = (m, s)" by fastforce
      have ok: "answer_ok E r req x" if "resp' = Some x" for x
        using resolve_spec [OF r3] that good_config [of r ?r2 E] fs2 by (auto simp: answer_ok_def flight_step_def)
      have fs3: "flight_step 2 1 r r3" using flight_step_path [OF fs2] resolve_spec [OF r3] by fastforce
      have "cache_safe E r3"
        using cs2 resolve_spec [OF r3] cache_safe_step [of ?r2 r3 E] by (simp add: path_step_def)
      from flight_end_spec [OF e ok fs3 this assms(3-5)] fe e show ?thesis
        by (intro conjI exI [of _ 1]) auto
    qed
  qed
qed

section \<open>The entry point\<close>

text \<open>Requests not yet accounted for by a static record, a cache hit or a cache miss.\<close>

definition tally :: "resolver \<Rightarrow> int" where
  "tally r = cnt (r_metrics r) QueriesTotal - cnt (r_metrics r) PathStatic
     - cnt (r_metrics r) QueriesCached - cnt (r_metrics r) CacheMiss"

text \<open>Requests the server has taken up or turned away.\<close>

definition seen :: "resolver \<Rightarrow> int" where
  "seen r = cnt (r_metrics r) QueriesTotal + cnt (r_metrics r) LoopDetections
     + cnt (r_metrics r) QueriesGlobalLimited + cnt (r_metrics r) QueriesRateLimited"

text \<open>The bookkeeping of a whole call: gauges and in-flight counts restored, requests accounted for.\<close>

definition call_step :: "resolver \<Rightarrow> resolver \<Rightarrow> bool" where
  "call_step r r' \<longleftrightarrow> same_config r r' \<and> r_active r' = r_active r \<and> r_stopped r' = r_stopped r
     \<and> cnt (r_metrics r') InFlightQueries = cnt (r_metrics r) InFlightQueries
     \<and> tally r' = tally r \<and> (gauge_ok r \<longrightarrow> gauge_ok r') \<and> (store_inv (r_store r) \<longrightarrow> store_inv (r_store r'))"

text \<open>The answer to an address query: SERVFAIL, the pinned record, or an answer that may be given,
  under the identifier of the request.\<close>

definition reply_ok :: "env \<Rightarrow> resolver \<Rightarrow> msg \<Rightarrow> question \<Rightarrow> msg \<Rightarrow> bool" where
  "reply_ok E r req q m \<longleftrightarrow> (mRcode m = RcodeServerFailure \<and> mAnswer m = [])
     \<or> (qType q = TypeA \<and> (\<exists>ip. staticLookup r (qName q) = Some ip \<and> m = staticResponse (e_lib E) req q ip))
     \<or> (\<exists>m0. good E r m0 \<and> m = m0\<lparr>mId := mId req\<rparr>)"

lemma call_step_refl [simp]: "call_step r r"
  by (simp add: call_step_def)

lemma flight_step_call: "flight_step p t r s \<Longrightarrow> call_step r s \<and> seen s = seen r"
  by (auto simp: flight_step_def call_step_def tally_def seen_def)

lemma Resolve_miss_spec:
  assumes "Resolve_miss E ctx shared req q r = Some (v, r')" "cache_safe E r" "lib_types_ok (e_lib E)"
    "mQuestion req = q # qs" "\<And>x. shared = Some x \<Longrightarrow> flight_ok E r req x" "lib_reply_ok (e_lib E)"
  shows "cache_safe E r' \<and> call_step (bump CacheMiss 1 r) r' \<and> seen r' = seen r
     \<and> (\<forall>m. v = Reply m \<longrightarrow> mId m = mId req \<and> (address_type (qType q) \<longrightarrow> reply_ok E r req q m))"
proof -
  let ?r = "bump CacheMiss 1 r"
  have cs: "cache_safe E ?r" using assms(2) cache_safe_step [of r ?r E] by (simp add: bump_def same_config_def)
  have sn: "seen ?r = seen r" by (simp add: seen_def bump_def counter_simps)
  have g: "good E ?r = good E r" by (rule good_config) simp
  have ok: "address_type (qType q) \<longrightarrow> reply_ok E r req q (m\<lparr>mId := mId req\<rparr>)" if "flight_ok E r req m" for m
    using that assms(4) by (auto simp: flight_ok_def reply_ok_def first_type_def)
  show ?thesis
  proof (cases shared)
    case (Some x)
    then have "v = Reply (x\<lparr>mId := mId req\<rparr>)" "r' = ?r" using assms(1) by (auto simp: Resolve_miss_def)
    then show ?thesis using cs sn ok [OF assms(5) [OF Some]] by (simp add: call_step_def)
  next
    case None
    then obtain w s where f: "flight E ctx req (qName q) ?r = Some (w, s)"
      and v: "v = (case w of None \<Rightarrow> Panic | Some m \<Rightarrow> Reply (m\<lparr>mId := mId req\<rparr>))" "r' = s"
      using assms(1) by (auto simp: Resolve_miss_def Let_def bind_eq_Some_conv)
    have sp: "cache_safe E s" "\<And>m. w = Some m \<Longrightarrow> flight_ok E r req m" "call_step ?r s" "seen s = seen r"
      using flight_spec [OF f cs assms(3) _ assms(6)] assms(4) g sn by (auto simp: flight_ok_def dest: flight_step_call)
    then show ?thesis using v ok by (auto split: option.splits)
  qed
qed

lemma call_step_entry:
  "call_step (bump CacheMiss 1 s) r' \<Longrightarrow> s = tickup (tickup ((bump QueriesTotal 1 r)\<lparr>r_cache := c\<rparr>)) \<Longrightarrow> call_step r r'"
  by (auto simp: call_step_def bump_def tickup_def tally_def same_config_def gauge_ok_def counter_simps)

text \<open>The three ways through the body: a pinned record, a cache hit, a miss.\<close>

abbreviation looked_up :: "cache \<Rightarrow> resolver \<Rightarrow> resolver" where
  "looked_up c r \<equiv> tickup (tickup ((bump QueriesTotal 1 r)\<lparr>r_cache := c\<rparr>))"

lemma Resolve_body_cases:
  assumes "Resolve_body E ctx shared req q r = Some (v, r')"
  obtains (static) ip where "qType q = TypeA" "staticLookup r (qName q) = Some ip"
      "v = Reply (staticResponse (e_lib E) req q ip)" "r' = bump PathStatic 1 (bump QueriesTotal 1 r)"
  | (hit) m c where "cache_Get (e_lib E) (e_clock E (tick r)) (e_clock E (tick r + 1)) (Some req) (r_cache r) = (Some m, c)"
      "v = Reply m" "r' = bump QueriesCached 1 (looked_up c r)"
  | (miss) c where "cache_Get (e_lib E) (e_clock E (tick r)) (e_clock E (tick r + 1)) (Some req) (r_cache r) = (None, c)"
      "Resolve_miss E ctx shared req q (looked_up c r) = Some (v, r')"
proof -
  let ?r = "bump QueriesTotal 1 r"
  have st: "staticLookup ?r = staticLookup r" by (simp add: fun_eq_iff staticLookup_def bump_def)
  have tr: "tick ?r = tick r" "r_cache ?r = r_cache r" by (simp_all add: bump_def)
  obtain cached c where get: "cache_Get (e_lib E) (e_clock E (tick r)) (e_clock E (tick r + 1)) (Some req) (r_cache r)
      = (cached, c)" by fastforce
  show ?thesis
  proof (cases "if qType q = TypeA then staticLookup ?r (qName q) else None")
    case (Some ip)
    then show ?thesis using assms st static unfolding Resolve_body_def Let_def by (auto split: if_splits)
  next
    case None
    have "Resolve_body E ctx shared req q r = (case cached of
        Some m \<Rightarrow> Some (Reply m, bump QueriesCached 1 (looked_up c r)) | None \<Rightarrow> Resolve_miss E ctx shared req q (looked_up c r))"
      unfolding Resolve_body_def Let_def tr get None by simp
    then show ?thesis using assms get hit miss by (cases cached) auto
  qed
qed

lemma looked_up_config: "same_config r (looked_up c r)"
  by (simp add: same_config_def bump_def tickup_def)

lemma looked_up_safe:
  assumes "cache_safe E r" "cache_Get L t t2 (Some q) (r_cache r) = (x, c)"
  shows "cache_safe E (looked_up c r)"
proof -
  have "rc.holds (safe_entry E r) (r_cache r)" using assms(1) by (simp add: cache_safe_holds)
  from rc.holds_get [OF this] assms(2) have "rc.holds (safe_entry E r) c" by (metis snd_conv)
  then show ?thesis by (simp add: cache_safe_holds safe_entry_config [OF looked_up_config])
qed

lemma Resolve_body_spec:
  assumes "Resolve_body E ctx shared req q r = Some (v, r')" "cache_safe E r" "lib_types_ok (e_lib E)"
    "lib_reply_ok (e_lib E)" "mQuestion req = q # qs" "\<And>x. shared = Some x \<Longrightarrow> flight_ok E r req x"
  shows "cache_safe E r' \<and> call_step r r' \<and> seen r' = seen r + 1
     \<and> (\<forall>m. v = Reply m \<longrightarrow> mId m = mId req \<and> (address_type (qType q) \<longrightarrow> reply_ok E r req q m))"
  using assms(1)
proof (cases rule: Resolve_body_cases)
  case (static ip)
  moreover have "mId (staticResponse (e_lib E) req q ip) = mId req"
    using assms(4) by (simp add: staticResponse_def Let_def lib_reply_ok_def)
  moreover have "cache_safe E r'"
    using assms(2) cache_safe_step [of r r' E] static(4) by (simp add: bump_def same_config_def)
  ultimately show ?thesis
    by (auto simp: reply_ok_def call_step_def bump_def tally_def seen_def same_config_def gauge_ok_def counter_simps)
next
  case (hit m c)
  have "rc.holds (safe_entry E r) (r_cache r)" using assms(2) by (simp add: cache_safe_holds)
  then obtain m0 where m0: "safe_entry E r (makeKey (e_lib E) (Some req)) m0" "m = m0\<lparr>mId := mId req\<rparr>"
    using rc.get_holds hit(1) by blast
  have "address_type (qType q) \<longrightarrow> reply_ok E r req q m"
    using m0 assms(5) by (auto simp: reply_ok_def safe_entry_def first_type_def)
  moreover have "cache_safe E r'"
    using looked_up_safe [OF assms(2) hit(1)] cache_safe_step [of "looked_up c r" r' E] hit(3)
    by (simp add: bump_def same_config_def)
  moreover have "call_step r r'"
    by (auto simp: hit(3) call_step_def bump_def tickup_def tally_def same_config_def gauge_ok_def counter_simps)
  moreover have "seen r' = seen r + 1" by (simp add: hit(3) seen_def bump_def tickup_def counter_simps)
  ultimately show ?thesis using hit m0 by simp
next
  case (miss c)
  have ok: "flight_ok E (looked_up c r) req x" if "shared = Some x" for x
    using assms(6) [OF that] good_config [OF looked_up_config] by (simp add: flight_ok_def)
  have ro: "reply_ok E (looked_up c r) req q = reply_ok E r req q"
    using good_config [OF looked_up_config] by (simp add: fun_eq_iff reply_ok_def staticLookup_def bump_def tickup_def)
  note sp = Resolve_miss_spec [OF miss(2) looked_up_safe [OF assms(2) miss(1)] assms(3,5) ok assms(4)]
  have "call_step r r'" using sp call_step_entry [OF _ refl] by blast
  moreover have "seen r' = seen (looked_up c r)" using sp by blast
  moreover have "seen (looked_up c r) = seen r + 1" by (simp add: seen_def bump_def tickup_def counter_simps)
  ultimately show ?thesis using sp unfolding ro by (metis (no_types))
qed

lemma enter_exit:
  "call_step (enter r) s \<Longrightarrow> call_step r (exit_call s)"
  "same_config r (enter r)" "r_cache (enter r) = r_cache r"
  "cache_safe E (exit_call s) = cache_safe E s" "seen (enter r) = seen r" "seen (exit_call s) = seen s"
  by (auto simp: seen_def call_step_def enter_def exit_call_def bump_def tally_def same_config_def gauge_ok_def
      counter_simps intro!: cache_safe_step)

lemma Resolve_spec:
  assumes "Resolve E ctx shared (Some req) r = Some (v, r')" "cache_safe E r" "lib_types_ok (e_lib E)"
    "lib_reply_ok (e_lib E)" "\<And>x. shared = Some x \<Longrightarrow> flight_ok E r req x"
  shows "cache_safe E r' \<and> call_step r r'
     \<and> (\<not> r_stopped r \<longrightarrow> mQuestion req \<noteq> [] \<longrightarrow> seen r' = seen r + 1) \<and> (\<forall>m. v = Reply m \<longrightarrow> mId m = mId req
     \<and> (\<forall>q qs. mQuestion req = q # qs \<longrightarrow> address_type (qType q) \<longrightarrow> reply_ok E r req q m))"
proof -
  have sf: "mId (ServerFail (e_lib E) (Some req)) = mId req" "reply_ok E r req q (ServerFail (e_lib E) (Some req))" for q
    using ServerFail_reply [OF assms(4)] by (simp_all add: reply_ok_def)
  have cs: "cache_safe E (enter r)" using assms(2) cache_safe_step enter_exit(2,3) by blast
  show ?thesis
  proof (cases "r_stopped r")
    case True
    then show ?thesis using assms(1,2) sf by (auto simp: Resolve_def call_step_def)
  next
    case run: False
    show ?thesis
    proof (cases "mQuestion req")
      case Nil
      then have "v = Reply (ServerFail (e_lib E) (Some req))" "r' = exit_call (enter r)"
        using assms(1) run by (auto simp: Resolve_def)
      then show ?thesis using sf Nil cs enter_exit(1) [OF call_step_refl] enter_exit(4) by simp
    next
      case (Cons q qs)
      then obtain s where b: "Resolve_body E ctx shared req q (enter r) = Some (v, s)" and r': "r' = exit_call s"
        using assms(1) run by (auto simp: Resolve_def bind_eq_Some_conv)
      have ok: "flight_ok E (enter r) req x" if "shared = Some x" for x
        using assms(5) [OF that] good_config [OF enter_exit(2)] by (simp add: flight_ok_def)
      have ro: "reply_ok E (enter r) req q = reply_ok E r req q"
        using good_config [OF enter_exit(2)]
        by (simp add: fun_eq_iff reply_ok_def staticLookup_def enter_def bump_def)
      note sp = Resolve_body_spec [OF b cs assms(3,4) Cons ok, unfolded ro]
      have cr: "call_step r r'" "cache_safe E r'" "seen r' = seen r + 1"
        using sp enter_exit(1,4-6) r' by auto
      have "mId m = mId req \<and> (\<forall>q' qs'. mQuestion req = q' # qs' \<longrightarrow> address_type (qType q') \<longrightarrow> reply_ok E r req q' m)"
        if "v = Reply m" for m
        using conjunct2 [OF conjunct2 [OF conjunct2 [OF sp]]] that unfolding Cons by simp
      with cr show ?thesis by blast
    qed
  qed
qed

text \<open>
  End to end: as long as the cache is safe, every reply to an address query is SERVFAIL without
  records, the pinned record, or the global server's answer or an Iranian answer without hijacked addresses, and
  the cache stays safe. This holds for replies from the cache, for fresh ones, and for callers that
  receive the result of another caller's flight.
\<close>

theorem Resolve_safe:
  assumes "Resolve E ctx shared (Some req) r = Some (Reply m, r')" "cache_safe E r"
    and "lib_types_ok (e_lib E)" "lib_reply_ok (e_lib E)" "\<forall>x. shared = Some x \<longrightarrow> flight_ok E r req x"
    and "mQuestion req = q # qs" "address_type (qType q)"
  shows "reply_ok E r req q m \<and> cache_safe E r'"
  using Resolve_spec [OF assms(1-4)] assms(5-7) by auto

text \<open>
  Every reply carries the identifier of its request, whichever way it was produced: cached,
  pinned, resolved, shared with another caller, or SERVFAIL.
\<close>

theorem Resolve_reply_id:
  assumes "Resolve E ctx shared (Some req) r = Some (Reply m, r')" "cache_safe E r"
    and "lib_types_ok (e_lib E)" "lib_reply_ok (e_lib E)" "\<forall>x. shared = Some x \<longrightarrow> flight_ok E r req x"
  shows "mId m = mId req"
  using Resolve_spec [OF assms(1-4)] assms(5) by auto


text \<open>
  A pinned record comes first: for an A query of its name, in any case, the reply is the pinned
  address, whatever the cache holds and without a query to any server.
\<close>

theorem static_precedes_cache:
  assumes "\<not> r_stopped r" "mQuestion req = q # qs" "qType q = TypeA" "staticLookup r (qName q) = Some ip"
  shows "\<exists>r'. Resolve E ctx shared (Some req) r = Some (Reply (staticResponse (e_lib E) req q ip), r')
     \<and> tick r' = tick r \<and> r_cache r' = r_cache r"
proof -
  have "staticLookup (bump QueriesTotal 1 (enter r)) (qName q) = Some ip"
    using assms(4) by (simp add: staticLookup_def bump_def enter_def)
  then have "Resolve E ctx shared (Some req) r = Some (Reply (staticResponse (e_lib E) req q ip),
      exit_call (bump PathStatic 1 (bump QueriesTotal 1 (enter r))))"
    using assms(1-3) by (simp add: Resolve_def Resolve_body_def)
  then show ?thesis by (simp add: exit_call_def bump_def enter_def)
qed

end
