(* ===== verification/Resolver_Behaviour.thy ===== *)
theory Resolver_Behaviour
  imports Resolver_Resolve
begin

text \<open>
  Package \<open>internal/resolver\<close>, last part: the corners of the resolver's behaviour, and the concrete
  resolver, environment and runs on which the properties of the resolver's theories are evaluated.
\<close>

section \<open>A concrete resolver\<close>

definition sample_classifier :: classifier where
  "sample_classifier = \<lparr>iranRanges4 = [\<lparr>pfx_addr = V4 0x05160000, pfx_bits = 17\<rparr>], iranRanges6 = []\<rparr>"

definition sample_resolver :: resolver where
  "sample_resolver = resolver_New sample_classifier (empty_store ''f'' True []) ''5.5.5.5'' ''8.8.8.8''
     [''ir''] [''10.10.34.35''] [''10.10.34.0/24''] [''shop.example''] 300 3600 (metrics_New 0) [] 1000 5 (30 * second) 5 (30 * second)"

definition iran_ip :: IP where "iran_ip = [5, 22, 0, 1]"
definition hijack_ip :: IP where "hijack_ip = [10, 10, 34, 36]"
definition other_ip :: IP where "other_ip = [93, 184, 216, 34]"

text \<open>The Iranian server answers with \<open>ipI\<close>, the global one with \<open>ipG\<close>; the selects take \<open>p1\<close> until
  the \<open>k\<close>th question to the environment and then \<open>p2\<close>.\<close>

definition sample_env :: "IP option \<Rightarrow> IP option \<Rightarrow> nat \<Rightarrow> pick \<Rightarrow> pick \<Rightarrow> env" where
  "sample_env ipI ipG k p1 p2 = \<lparr>e_lib = sample_lib,
     e_exchange = (\<lambda>n net addr t q. map_option (\<lambda>ip. sample_answer (mId q) (qName (hd (mQuestion q))) ip 60)
        (if addr = ''5.5.5.5:53'' then ipI else ipG)),
     e_clock = (\<lambda>n. 0), e_done = (\<lambda>n. False), e_pick = (\<lambda>n. if n \<le> k then p1 else p2),
     e_rand = (\<lambda>n i. 0), e_date = (\<lambda>n. ''2024-01-01''), e_order = (\<lambda>xs. xs)\<rparr>"

abbreviation "sample_req \<equiv> sample_query 77 ''www.Example.com.'' 1"
abbreviation "learning_env \<equiv> sample_env (Some iran_ip) (Some other_ip) 0 PickIran PickTimer"
abbreviation "hijacked_env \<equiv> sample_env (Some hijack_ip) (Some other_ip) 0 PickIran PickGlobal"
abbreviation "tld_req \<equiv> sample_query 77 ''a.ir.'' 1"

section \<open>Runs\<close>

lemma sample_req_type: "address_type (first_type sample_req)"
  by (simp add: address_type_def first_type_def sample_query_def)

lemma tld_req_type: "address_type (first_type tld_req)"
  by (simp add: address_type_def first_type_def sample_query_def)

lemma sample_env_lib: "e_lib (sample_env a b k p q) = sample_lib"
  by (simp add: sample_env_def)

lemma sample_cache_safe: "cache_safe E sample_resolver"
  by (simp add: cache_safe_def stored_def sample_resolver_def resolver_New_def cache_New_def)

lemma learning_run:
  obtains m r' where "resolveWithLearning learning_env None sample_req ''www.Example.com.'' sample_resolver = Some (m, r')"
    "extractIPs m = [''5.22.0.1'']" "mRcode m = RcodeSuccess" "domains (r_store r') = [''www.example.com'']"
proof -
  have "(case resolveWithLearning learning_env None sample_req ''www.Example.com.'' sample_resolver of
      None \<Rightarrow> False | Some (m, r') \<Rightarrow> extractIPs m = [''5.22.0.1''] \<and> mRcode m = RcodeSuccess
         \<and> domains (r_store r') = [''www.example.com''])"
    by code_simp
  with that show ?thesis by (auto split: option.splits)
qed

lemma hijacked_run:
  obtains m r' where "Resolve hijacked_env None None (Some tld_req) sample_resolver = Some (Reply m, r')"
    "extractIPs m = [''93.184.216.34'']" "domains (r_store r') = []"
proof -
  have "(case Resolve hijacked_env None None (Some tld_req) sample_resolver of
      None \<Rightarrow> False | Some (Panic, r') \<Rightarrow> False
    | Some (Reply m, r') \<Rightarrow> extractIPs m = [''93.184.216.34''] \<and> domains (r_store r') = [])"
    by code_simp
  with that show ?thesis by (auto split: option.splits reply.splits) (metis reply.exhaust)
qed

theorem learning_never_returns_unverified_witness:
  "\<exists>m r'. resolveWithLearning learning_env None sample_req ''www.Example.com.'' sample_resolver = Some (m, r')
     \<and> (from_global learning_env sample_resolver m
        \<or> (from_iran learning_env sample_resolver m \<and> \<not> isHijacked sample_resolver (extractIPs m)))"
proof -
  obtain m r' where r: "resolveWithLearning learning_env None sample_req ''www.Example.com.'' sample_resolver = Some (m, r')"
    "mRcode m = RcodeSuccess" by (rule learning_run)
  from learning_never_returns_unverified [OF r(1) sample_req_type] r show ?thesis by auto
qed

theorem learns_only_with_evidence_witness:
  "\<exists>a. from_iran learning_env sample_resolver a \<and> \<not> isHijacked sample_resolver (extractIPs a)"
proof -
  obtain m r' where r: "resolveWithLearning learning_env None sample_req ''www.Example.com.'' sample_resolver = Some (m, r')"
    "domains (r_store r') = [''www.example.com'']" by (rule learning_run)
  have "domains (r_store sample_resolver) = []"
    by (simp add: sample_resolver_def resolver_New_def empty_store_def)
  with learns_only_with_evidence [OF r(1)] r(2) show ?thesis by auto
qed

theorem resolve_never_returns_hijacked_witness:
  "\<exists>m r'. resolve hijacked_env None
       tld_req ''a.ir.'' sample_resolver = Some (Some m, r')
     \<and> (m = ServerFail sample_lib (Some tld_req)
        \<or> from_global hijacked_env sample_resolver m
        \<or> \<not> isHijacked sample_resolver (extractIPs m))"
proof -
  have "(case resolve hijacked_env None tld_req ''a.ir.'' sample_resolver of None \<Rightarrow> False | Some (None, r') \<Rightarrow> False
      | Some (Some m, r') \<Rightarrow> True)"
    by code_simp
  then obtain m r' where r: "resolve hijacked_env None tld_req ''a.ir.'' sample_resolver = Some (Some m, r')"
    by (auto split: option.splits)
  from resolve_never_returns_hijacked [OF r tld_req_type] r sample_env_lib show ?thesis by auto
qed

theorem Resolve_safe_witness:
  "\<exists>m r'. Resolve hijacked_env None None (Some tld_req) sample_resolver = Some (Reply m, r')
     \<and> extractIPs m = [''93.184.216.34''] \<and> cache_safe hijacked_env r'"
proof -
  obtain m r' where r: "Resolve hijacked_env None None (Some tld_req) sample_resolver = Some (Reply m, r')"
    "extractIPs m = [''93.184.216.34'']" by (rule hijacked_run)
  have "mQuestion tld_req = \<lparr>qName = ''a.ir.'', qType = 1, qClass = 1\<rparr> # []"
    by (simp add: sample_query_def)
  from Resolve_safe [OF r(1) sample_cache_safe _ _ _ this] r sample_lib_ok show ?thesis
    by (auto simp: sample_env_lib address_type_def)
qed

theorem Resolve_reply_id_witness:
  "\<exists>m r'. Resolve hijacked_env None None (Some tld_req) sample_resolver = Some (Reply m, r') \<and> mId m = 77"
proof -
  obtain m r' where r: "Resolve hijacked_env None None (Some tld_req) sample_resolver = Some (Reply m, r')"
    by (rule hijacked_run)
  from Resolve_reply_id [OF r sample_cache_safe] r sample_lib_ok show ?thesis
    by (auto simp: sample_env_lib sample_query_def)
qed


section \<open>Both breakers open\<close>

text \<open>
  C36. When both circuits are open and the global one may not be probed yet, \<open>resolveWithLearning\<close>
  starts no query and then waits on the two channels nobody will write to: the only way out of its
  first \<open>select\<close> is the end of the client's context. The client gets its SERVFAIL at the deadline, not
  at once.
\<close>

theorem both_open_waits_for_deadline:
  assumes "isOpen (iranCb r)" "isOpen (globalCb r)" "\<not> fst (tryProbe (e_clock E (tick r)) (globalCb r))"
  shows "map_option fst (resolveWithLearning E ctx req domain r) =
     (if e_pick E (tick r + 1) = PickDone then Some (ServerFail (e_lib E) (Some req)) else None)"
proof -
  obtain cb where p: "tryProbe (e_clock E (tick r)) (globalCb r) = (False, cb)"
    using assms(3) by (metis prod.collapse)
  let ?r0 = "bump GlobalCBSkipped 1 (tickup (r\<lparr>globalCb := cb\<rparr>))"
  have s: "learn_start E True r = (False, ?r0)" using assms(2) p by (simp add: learn_start_def)
  have t: "tick ?r0 = tick r + 1" by (simp add: bump_def tickup_def)
  have a: "await E ctx [PickIran, PickGlobal, PickDone] req
        \<lparr>l_iranMsg = None, l_globalMsg = None, l_iranOut = False, l_globalOut = False\<rparr> ?r0 =
      (if e_pick E (tick r + 1) = PickDone
       then Some (Cancelled, \<lparr>l_iranMsg = None, l_globalMsg = None, l_iranOut = False, l_globalOut = False\<rparr>, tickup ?r0)
       else None)"
    by (cases "e_pick E (tick r + 1)") (simp_all add: await_def t)
  show ?thesis using assms(1) s a by (simp add: resolveWithLearning_def)
qed

section \<open>The half-open state\<close>

lemma half_open_skips:
  assumes "cb_state (iranCb r) = cbHalfOpen"
  shows "queryIranDNS E ctx req r = (None, req, bump IranCBSkipped 1 (tickup r))"
  using assms by (simp add: queryIranDNS_def isOpen_def tryProbe_def)

text \<open>
  C35. A probe can be lost: when the context ends between the probe's permission and its query, the
  breaker is half-open although no probe is on its way, and from then on \<open>queryIranDNS\<close> skips the
  Iranian server and leaves the breaker half-open, whatever the time, the context and the network do.
\<close>

theorem abandoned_probe_wedges_breaker:
  assumes "cb_state (iranCb r) = cbOpen" "cb_cooldown (iranCb r) < e_clock E (tick r) - cb_lastOpen (iranCb r)"
    and "e_done E (tick r + 1)"
  shows "\<exists>r'. queryIranDNS E ctx req r = (None, req, r') \<and> cb_state (iranCb r') = cbHalfOpen
     \<and> (\<forall>E' ctx' req'. \<exists>s. queryIranDNS E' ctx' req' r' = (None, req', s) \<and> iranCb s = iranCb r')"
proof -
  let ?r = "tickup (tickup (r\<lparr>iranCb := (iranCb r)\<lparr>cb_state := cbHalfOpen\<rparr>\<rparr>))"
  have "queryIranDNS E ctx req r = (None, req, ?r)"
    using assms by (simp add: queryIranDNS_def isOpen_def tryProbe_def Let_def query_def tickup_def)
  moreover have "cb_state (iranCb ?r) = cbHalfOpen" by simp
  ultimately show ?thesis
    by (intro exI [of _ ?r]) (simp add: half_open_skips bump_def)
qed

lemma note_global_iranCb: "iranCb (note_global E err el r) = iranCb r"
  by (simp add: note_global_def Let_def bump_def case_prod_unfold)

lemma query_keeps_iranCb:
  assumes "up \<noteq> iranDNS r"
  shows "iranCb (snd (snd (query E ctx req up r))) = iranCb r"
proof -
  have t: "iranCb (snd (query_timeout E ctx b s)) = iranCb s" for b s
    by (simp add: query_timeout_def Let_def split: option.splits)
  have i: "iranCb (snd (randDNSID s)) = iranCb s" for s by (simp add: randDNSID_def Let_def)
  have f: "iranCb (snd (query_fallback E tm q s)) = iranCb s" for tm q s
    by (simp add: query_fallback_def Let_def bump_def split: option.splits)
  have c: "iranCb (snd (query_tcp E tm a q m s)) = iranCb s" for tm a q m s
    by (simp add: query_tcp_def Let_def bump_def split: option.splits)
  have s: "iranCb (snd (query_send E False a tm st q s)) = iranCb s" for a tm st q s
    by (auto simp: query_send_def Let_def f c note_global_iranCb case_prod_unfold split: option.splits)
  show ?thesis
    using assms by (simp add: query_def Let_def case_prod_unfold s i t)
qed

lemma await_keeps_iranCb:
  assumes "await E ctx alts req l s = Some (w, l', s')" "\<not> l_iranOut l" "globalDNS s \<noteq> iranDNS s"
  shows "iranCb s' = iranCb s \<and> l_iranMsg l' = l_iranMsg l"
  using assms query_keeps_iranCb [of "globalDNS (tickup s)" "tickup s" E ctx req]
  by (auto simp: await_def Let_def split: if_splits pick.splits prod.splits)

text \<open>
  The learning path never probes an open Iranian circuit: it leaves the breaker as it is, however
  long ago it opened. Only names under the Iranian top-level domains, preferred names and learned
  names can close it again.
\<close>

theorem learning_never_probes_iran:
  assumes "resolveWithLearning E ctx req domain r = Some (m, r')" "isOpen (iranCb r)" "globalDNS r \<noteq> iranDNS r"
  shows "iranCb r' = iranCb r"
proof -
  obtain gs r0 where s: "learn_start E True r = (gs, r0)" by fastforce
  have r0: "iranCb r0 = iranCb r" "globalDNS r0 \<noteq> iranDNS r0"
    using s assms(3) by (auto simp: learn_start_def Let_def bump_def tickup_def split: if_splits prod.splits)
  let ?l0 = "\<lparr>l_iranMsg = None, l_globalMsg = None, l_iranOut = False, l_globalOut = gs\<rparr>"
  obtain w1 l1 r1 where a1: "await E ctx [PickIran, PickGlobal, PickDone] req ?l0 r0 = Some (w1, l1, r1)"
    using assms(1,2) s by (auto simp: resolveWithLearning_def Let_def bind_eq_Some_conv)
  have k1: "iranCb r1 = iranCb r" "l_iranMsg l1 = None" "\<not> l_iranOut l1"
    using await_keeps_iranCb [OF a1] r0 a1
    by (auto simp: await_def Let_def split: if_splits pick.splits prod.splits)
  have "net_step r0 r1"
    using a1 query_global_spec(1) [of E ctx req "tickup r0"] net_step_trans [of r0 "tickup r0"]
    by (fastforce simp: await_def Let_def split: if_splits pick.splits prod.splits)
  then have d1: "globalDNS r1 \<noteq> iranDNS r1" using r0 by (simp add: net_step_def same_config_def)
  let ?two = "w1 \<noteq> Cancelled \<and> l_iranMsg l1 = None \<and> l_globalMsg l1 = None"
  obtain w2 l2 r2 where
    a2: "(if ?two then await E ctx [PickIran, PickGlobal, PickTimer, PickDone] req l1 r1
          else Some (w1, l1, r1)) = Some (w2, l2, r2)"
    and x: "(if w2 = Cancelled then Some (ServerFail (e_lib E) (Some req), leave ctx req l2 r2)
        else case (l_iranMsg l2, l_globalMsg l2) of
            (Some m, _) \<Rightarrow> learn_iran E ctx req domain gs m l2 r2
          | (None, Some g) \<Rightarrow> learn_global E ctx req domain True g l2 r2
          | (None, None) \<Rightarrow> learn_none E ctx req (address_type (first_type req) \<or> True) l2 r2) = Some (m, r')"
    using assms(1,2) s a1 by (auto simp: resolveWithLearning_def Let_def bind_eq_Some_conv)
  have "iranCb r2 = iranCb r" "l_iranMsg l2 = None"
    using a2 k1 await_keeps_iranCb [of E ctx _ req l1 r1 w2 l2 r2] d1 by (auto split: if_splits)
  then show ?thesis
    using x by (auto simp: learn_global_def learn_none_def leave_def bump_def split: if_splits option.splits)
qed

section \<open>Names, identifiers, pinned records\<close>

text \<open>
  An entry of \<open>iran_tlds\<close> with a non-ASCII letter is dead: names arrive in their ASCII form, and
  the decision on an ASCII name is the same without those entries.
\<close>

theorem unicode_tld_never_matches:
  assumes "is_ascii domain"
  shows "isIranTLD r domain = isIranTLD (r\<lparr>iranTLDs := filter is_ascii (iranTLDs r)\<rparr>) domain"
proof -
  have "is_ascii (TrimSuffix domain [DOT])"
    using assms by (auto simp: TrimSuffix_dot is_ascii_def list_all_iff dest: in_set_butlastD)
  then have "is_ascii (fold_name domain)" by (simp add: fold_name_def is_ascii_ToLower)
  then have "is_ascii s" if "subdomain_of (fold_name domain) s" for s
    using that by (auto simp: subdomain_of_def is_ascii_def)
  then show ?thesis by (auto simp: tld.matches_iff)
qed

text \<open>
  A pinned IPv6 address gives a malformed answer: the A record holds sixteen bytes instead of
  four, and an AAAA query of the name is not answered from the pinned records at all.
\<close>

theorem static_ipv6_in_A_record:
  assumes "lib_reply_ok L"
  shows "\<exists>h b. mAnswer (staticResponse L req q (V6 a z)) = [RR_A h b] \<and> hRrtype h = TypeA \<and> length b = 16"
  using assms by (simp add: staticResponse_def Let_def lib_reply_ok_def new_Msg_def AsSlice_def)

lemma ucast_Suc: "(ucast (n + 1 :: 32 word) :: 16 word) = ucast n + 1"
proof -
  have "take_bit 16 (take_bit 32 i + 1) = take_bit 16 (i + 1)" for i :: int
    using take_bit_add [of 16 "take_bit 32 i" 1] take_bit_add [of 16 i 1] by (simp add: take_bit_take_bit)
  then show ?thesis by transfer simp
qed

text \<open>
  The identifiers of outgoing queries are not random: the package counts up, so from one
  identifier the next is known; the value zero is replaced by one, which makes two queries in a row
  share the identifier one whenever the 16-bit counter wraps.
\<close>

theorem dns_id_predictable:
  "fst (randDNSID r) \<noteq> 0
   \<and> (ucast (dnsIDCounter r + 1) \<noteq> (0 :: 16 word) \<longrightarrow> fst (randDNSID r) = ucast (dnsIDCounter r + 1))
   \<and> (ucast (dnsIDCounter r + 1) = (0 :: 16 word) \<longrightarrow>
        fst (randDNSID r) = 1 \<and> fst (randDNSID (snd (randDNSID r))) = 1)"
proof -
  define n where "n = dnsIDCounter r + 1"
  show ?thesis by (simp add: randDNSID_def Let_def ucast_Suc flip: n_def)
qed

text \<open>
  The pause before the retry lies between a fifteenth and a tenth of the timeout; a timeout
  below 30 nanoseconds makes \<open>rand.Int63n\<close> panic instead.
\<close>

theorem retry_jitter_bounds:
  assumes "\<And>n. 0 < n \<Longrightarrow> 0 \<le> rnd n \<and> rnd n < n" "0 \<le> timeout"
  shows "case retry_jitter rnd timeout of None \<Rightarrow> timeout < 30
     | Some j \<Rightarrow> timeout div 15 \<le> j \<and> 10 * j < timeout"
proof -
  have q: "quot64 timeout 30 = timeout div 30" "quot64 timeout 15 = timeout div 15"
    using assms(2) by (simp_all add: quot64_pos)
  have b: "0 \<le> rnd (timeout div 30) \<and> rnd (timeout div 30) < timeout div 30" if "0 < timeout div 30"
    using assms(1) [OF that] .
  show ?thesis
  proof (cases "0 < timeout div 30")
    case True
    have "15 * (timeout div 15) \<le> timeout" "30 * (timeout div 30) \<le> timeout" by presburger+
    moreover have "10 * (x + z) < t" if "15 * x \<le> t" "30 * y \<le> t" "z < y" for x y z t :: int
      using that by presburger
    ultimately have "10 * (timeout div 15 + rnd (timeout div 30)) < timeout" using b [OF True] by blast
    then show ?thesis using True b [OF True] by (simp add: retry_jitter_def Let_def q)
  next
    case False
    then show ?thesis by (simp add: retry_jitter_def Let_def q)
  qed
qed

lemma stop_wait_ends:
  assumes "\<And>i. clock i + 10 * millisecond \<le> clock (i + 1)"
  shows "deadline < clock i + 10 * millisecond * int n \<Longrightarrow> \<exists>k. stop_wait active clock deadline i (n + 1) = Some k"
proof (induction n arbitrary: i)
  case 0
  then show ?case by (subst stop_wait.simps) simp
next
  case (Suc n)
  have "deadline < clock (i + 1) + 10 * millisecond * int n"
    using Suc.prems assms [of i] by simp
  from Suc.IH [OF this] show ?case by (subst stop_wait.simps) simp
qed

text \<open>
  C23. \<open>Stop\<close> returns: when the clock advances by at least the ten milliseconds each poll sleeps, the
  waiting loop ends after at most 3002 polls, however many calls are still active.
\<close>

theorem Stop_returns:
  assumes "\<And>i. clock i + 10 * millisecond \<le> clock (i + 1)"
  shows "\<exists>k. stop_wait active clock (clock 0 + 30 * second) 0 3002 = Some k"
  using stop_wait_ends [of clock "clock 0 + 30 * second" 0 3001 active] assms by simp

section \<open>Witnesses\<close>

definition open_resolver :: "int \<Rightarrow> resolver" where
  "open_resolver t = sample_resolver\<lparr>iranCb := (iranCb sample_resolver)\<lparr>cb_state := cbOpen, cb_lastOpen := t\<rparr>,
     globalCb := (globalCb sample_resolver)\<lparr>cb_state := cbOpen, cb_lastOpen := t\<rparr>\<rparr>"

lemma open_resolver_open: "isOpen (iranCb (open_resolver t))" "isOpen (globalCb (open_resolver t))"
  "cb_state (iranCb (open_resolver t)) = cbOpen" "tick (open_resolver t) = 0"
  "cb_cooldown (iranCb (open_resolver t)) = 30 * second" "cb_lastOpen (iranCb (open_resolver t)) = t"
  "globalDNS (open_resolver t) \<noteq> iranDNS (open_resolver t)"
  by (simp_all add: open_resolver_def isOpen_def sample_resolver_def resolver_New_def new_breaker_def)

theorem both_open_waits_for_deadline_witness:
  "map_option fst (resolveWithLearning (sample_env (Some iran_ip) (Some other_ip) 9 PickIran PickIran) None
      sample_req ''www.Example.com.'' (open_resolver 0)) = None
   \<and> map_option fst (resolveWithLearning (sample_env (Some iran_ip) (Some other_ip) 9 PickDone PickIran) None
      sample_req ''www.Example.com.'' (open_resolver 0)) = Some (ServerFail sample_lib (Some sample_req))"
proof -
  have p: "\<not> fst (tryProbe (e_clock (sample_env (Some iran_ip) (Some other_ip) 9 pk PickIran) (tick (open_resolver 0)))
      (globalCb (open_resolver 0)))" for pk
    by (simp add: sample_env_def tryProbe_def open_resolver_def sample_resolver_def resolver_New_def new_breaker_def)
  show ?thesis
    using both_open_waits_for_deadline [OF open_resolver_open(1,2) p [of PickIran],
        where ctx = None and req = sample_req and domain = "''www.Example.com.''"]
      both_open_waits_for_deadline [OF open_resolver_open(1,2) p [of PickDone],
        where ctx = None and req = sample_req and domain = "''www.Example.com.''"]
    by (simp add: open_resolver_open sample_env_def)
qed

theorem abandoned_probe_wedges_breaker_witness:
  "\<exists>r'. queryIranDNS (learning_env\<lparr>e_done := (\<lambda>n. True)\<rparr>) None sample_req (open_resolver (- 31 * second)) = (None, sample_req, r')
     \<and> cb_state (iranCb r') = cbHalfOpen"
  using abandoned_probe_wedges_breaker [OF open_resolver_open(3), of "- 31 * second" "learning_env\<lparr>e_done := (\<lambda>n. True)\<rparr>" None sample_req]
  by (auto simp: open_resolver_open sample_env_def)

theorem learning_never_probes_iran_witness:
  "\<exists>m r'. resolveWithLearning (sample_env (Some iran_ip) (Some other_ip) 9 PickGlobal PickGlobal) None
       sample_req ''www.Example.com.'' (open_resolver (- 31 * second)) = Some (m, r')
     \<and> cb_state (iranCb r') = cbOpen"
proof -
  let ?r = "resolveWithLearning (sample_env (Some iran_ip) (Some other_ip) 9 PickGlobal PickGlobal) None
       sample_req ''www.Example.com.'' (open_resolver (- 31 * second))"
  have "?r \<noteq> None" by code_simp
  then obtain m r' where r: "?r = Some (m, r')" by auto
  from learning_never_probes_iran [OF r open_resolver_open(1,7)] r open_resolver_open(3) show ?thesis by auto
qed

theorem unicode_tld_never_matches_witness:
  "\<not> isIranTLD (sample_resolver\<lparr>iranTLDs := [[CHR 0xD8, CHR 0xA7]]\<rparr>) ''a.ir''"
proof -
  have "is_ascii ''a.ir''" by code_simp
  from unicode_tld_never_matches [OF this, of "sample_resolver\<lparr>iranTLDs := [[CHR 0xD8, CHR 0xA7]]\<rparr>"]
  show ?thesis by (simp add: tld.matches_iff is_ascii_def)
qed

theorem static_ipv6_in_A_record_witness:
  "\<exists>h b. mAnswer (staticResponse sample_lib sample_req (hd (mQuestion sample_req)) (V6 1 [])) = [RR_A h b] \<and> length b = 16"
  using static_ipv6_in_A_record [OF sample_reply_ok] by blast

theorem dns_id_predictable_witness:
  "fst (randDNSID (sample_resolver\<lparr>dnsIDCounter := 65535\<rparr>)) = 1
   \<and> fst (randDNSID (snd (randDNSID (sample_resolver\<lparr>dnsIDCounter := 65535\<rparr>)))) = 1"
  using dns_id_predictable [of "sample_resolver\<lparr>dnsIDCounter := 65535\<rparr>"] by simp

theorem retry_jitter_bounds_witness:
  "case retry_jitter (\<lambda>n. n - 1) (3 * second) of None \<Rightarrow> False | Some j \<Rightarrow> 10 * j < 3 * second"
  using retry_jitter_bounds [of "\<lambda>n. n - 1" "3 * second"] by (simp split: option.splits)

theorem Stop_returns_witness:
  "\<exists>k. stop_wait (\<lambda>i. 1) (\<lambda>i. int i * (10 * millisecond)) (30 * second) 0 3002 = Some k"
  using Stop_returns [of "\<lambda>i. int i * (10 * millisecond)" "\<lambda>i. 1"] by simp

theorem static_precedes_cache_witness:
  "\<exists>r'. Resolve hijacked_env None None (Some tld_req)
       (SetStaticRecords sample_lib [(''A.ir'', ''1.2.3.4'')] sample_resolver)
     = Some (Reply (staticResponse sample_lib tld_req (hd (mQuestion tld_req)) (V4 0x01020304)), r')"
proof -
  let ?r = "SetStaticRecords sample_lib [(''A.ir'', ''1.2.3.4'')] sample_resolver"
  have l: "staticLookup ?r ''a.ir.'' = Some (V4 0x01020304)" by code_simp
  have s: "\<not> r_stopped ?r" by (simp add: SetStaticRecords_def sample_resolver_def resolver_New_def)
  from static_precedes_cache [OF s, of tld_req "hd (mQuestion tld_req)" "[]" "V4 0x01020304" hijacked_env None None] l
  show ?thesis by (auto simp: sample_query_def sample_env_def)
qed

end
