(* ===== verification/Rate_Limit.thy ===== *)
theory Rate_Limit
  imports Complex_Main Go_Base
begin

text \<open>
  Package \<open>internal/ratelimit\<close>. \<open>Limiter\<close> keeps sixteen maps from clients to their counting window,
  each an association list, and chooses among them by a 64-bit hash of the client's address (an
  ASCII string, so the runes \<open>range\<close> yields are its bytes). \<open>GlobalLimiter\<close> is one token bucket; its
  \<open>float64\<close> fields are rationals, so the rounding of the products is not modelled. The clock readings
  are arguments, in nanoseconds. Both \<open>Allow\<close> methods hold a lock from the reading of the clock on
  and are single steps; \<open>limiter_cleanup\<close> is one tick of the cleanup goroutine.
\<close>

record clientState =
  windowStart :: int
  rl_count :: int

record limiter =
  shards :: "(string \<times> clientState) list list"
  MaxRPS :: int
  rl_window :: int
  rl_stopped :: bool

definition numShards :: nat where "numShards = 16"

definition limiter_New :: "int \<Rightarrow> limiter" where
  "limiter_New maxRPS = \<lparr>shards = replicate numShards [], MaxRPS = maxRPS, rl_window = second, rl_stopped = False\<rparr>"

definition hash :: "string \<Rightarrow> 64 word" where
  "hash ip = fold (\<lambda>c h. h * 31 + of_int (of_char c)) ip 0"

definition shardFor :: "limiter \<Rightarrow> string \<Rightarrow> nat" where
  "shardFor l ip = unat (hash ip mod of_nat (length (shards l)))"

definition set_client :: "string \<Rightarrow> clientState \<Rightarrow> (string \<times> clientState) list \<Rightarrow> (string \<times> clientState) list" where
  "set_client ip cs s = (ip, cs) # filter (\<lambda>p. fst p \<noteq> ip) s"

definition Allow :: "int \<Rightarrow> string \<Rightarrow> limiter \<Rightarrow> bool \<times> limiter" where
  "Allow now ip l =
     (if MaxRPS l \<le> 0 then (True, l)
      else let i = shardFor l ip; s = shards l ! i
           in case map_of s ip of
                None \<Rightarrow> (True, l\<lparr>shards := (shards l)[i := set_client ip \<lparr>windowStart = now, rl_count = 1\<rparr> s]\<rparr>)
              | Some cs \<Rightarrow>
                  if now - windowStart cs > rl_window l
                  then (True, l\<lparr>shards := (shards l)[i := set_client ip \<lparr>windowStart = now, rl_count = 1\<rparr> s]\<rparr>)
                  else let cs' = cs\<lparr>rl_count := rl_count cs + 1\<rparr>
                       in (rl_count cs' \<le> MaxRPS l, l\<lparr>shards := (shards l)[i := set_client ip cs' s]\<rparr>))"

definition limiter_cleanup :: "int \<Rightarrow> limiter \<Rightarrow> limiter" where
  "limiter_cleanup now l =
     l\<lparr>shards := map (filter (\<lambda>(ip, cs). \<not> now - windowStart cs > 2 * rl_window l)) (shards l)\<rparr>"

definition limiter_Stop :: "limiter \<Rightarrow> limiter" where
  "limiter_Stop l = l\<lparr>rl_stopped := True\<rparr>"

record globalLimiter =
  g_maxRPS :: rat
  g_tokens :: rat
  g_last :: int

definition NewGlobal :: "int \<Rightarrow> int \<Rightarrow> globalLimiter" where
  "NewGlobal now maxRPS = \<lparr>g_maxRPS = of_int maxRPS, g_tokens = of_int maxRPS, g_last = now\<rparr>"

definition global_Allow :: "int \<Rightarrow> globalLimiter \<Rightarrow> bool \<times> globalLimiter" where
  "global_Allow now l =
     (if g_maxRPS l \<le> 0 then (True, l)
      else let elapsed = of_int (now - g_last l) / 1000000000;
               tokens = min (g_maxRPS l) (g_tokens l + elapsed * g_maxRPS l)
           in if tokens \<ge> 1 then (True, l\<lparr>g_last := now, g_tokens := tokens - 1\<rparr>)
              else (False, l\<lparr>g_last := now, g_tokens := tokens\<rparr>))"

section \<open>The sharded maps as one map\<close>

definition clients :: "limiter \<Rightarrow> string \<Rightarrow> clientState option" where
  "clients l ip = map_of (shards l ! shardFor l ip) ip"

text \<open>The specification: one map from clients to windows.\<close>

definition flat_allow ::
  "int \<Rightarrow> int \<Rightarrow> int \<Rightarrow> string \<Rightarrow> (string \<Rightarrow> clientState option) \<Rightarrow> bool \<times> (string \<Rightarrow> clientState option)" where
  "flat_allow limit window now ip m =
     (let fresh = \<lparr>windowStart = now, rl_count = 1\<rparr>
      in case m ip of None \<Rightarrow> (True, m(ip \<mapsto> fresh))
         | Some cs \<Rightarrow> if now - windowStart cs > window then (True, m(ip \<mapsto> fresh))
             else (rl_count cs + 1 \<le> limit, m(ip \<mapsto> cs\<lparr>rl_count := rl_count cs + 1\<rparr>)))"

definition limiter_inv :: "limiter \<Rightarrow> bool" where
  "limiter_inv l \<longleftrightarrow> length (shards l) = numShards \<and> rl_window l = second
     \<and> (\<forall>s \<in> set (shards l). distinct (map fst s) \<and> (\<forall>(ip, cs) \<in> set s. 1 \<le> rl_count cs))"

lemma limiter_New_inv [inv_intro]: "limiter_inv (limiter_New n)"
  by (simp add: limiter_inv_def limiter_New_def)

lemma shardFor_less: "length (shards l) = numShards \<Longrightarrow> shardFor l ip < length (shards l)"
proof -
  assume n: "length (shards l) = numShards"
  have "hash ip mod of_nat numShards < (of_nat numShards :: 64 word)"
    by (rule word_mod_less_divisor) (simp add: numShards_def word_gt_0)
  then have "unat (hash ip mod of_nat numShards) < unat (of_nat numShards :: 64 word)"
    by (simp add: word_less_nat_alt)
  moreover have "unat (of_nat numShards :: 64 word) = numShards" by (simp add: numShards_def)
  ultimately show ?thesis by (simp add: shardFor_def n)
qed

lemma shardFor_cong: "length (shards l') = length (shards l) \<Longrightarrow> shardFor l' = shardFor l"
  by (simp add: shardFor_def fun_eq_iff)

lemma map_of_filter_neq: "map_of (filter (\<lambda>p. fst p \<noteq> ip) s) = (map_of s)(ip := None)"
  by (induction s) (auto simp: fun_eq_iff)

lemma map_of_set_client [simp]: "map_of (set_client ip cs s) = (map_of s)(ip \<mapsto> cs)"
  by (simp add: set_client_def map_of_filter_neq)

lemma clients_update:
  assumes "length (shards l) = numShards"
  shows "clients (l\<lparr>shards := (shards l)[shardFor l ip := set_client ip cs (shards l ! shardFor l ip)]\<rparr>)
       = (clients l)(ip \<mapsto> cs)"
proof
  fix x
  let ?l = "l\<lparr>shards := (shards l)[shardFor l ip := set_client ip cs (shards l ! shardFor l ip)]\<rparr>"
  have sf: "shardFor ?l = shardFor l" by (rule shardFor_cong) simp
  show "clients ?l x = ((clients l)(ip \<mapsto> cs)) x"
    using shardFor_less [OF assms, of ip]
    by (cases "shardFor l x = shardFor l ip") (auto simp: clients_def sf)
qed

lemma distinct_filter_keys: "distinct (map fst s) \<Longrightarrow> distinct (map fst (filter P s))"
  by (induction s) auto

lemma set_client_counts:
  assumes "limiter_inv l" "1 \<le> rl_count cs"
  shows "limiter_inv (l\<lparr>shards := (shards l)[i := set_client ip cs (shards l ! i)]\<rparr>)"
proof (cases "i < length (shards l)")
  case True
  then have m: "shards l ! i \<in> set (shards l)" by simp
  then have "\<forall>(x, c) \<in> set (set_client ip cs (shards l ! i)). 1 \<le> rl_count c"
    using assms by (fastforce simp: limiter_inv_def set_client_def)
  moreover have "distinct (map fst (set_client ip cs (shards l ! i)))"
    using assms m by (auto simp: limiter_inv_def set_client_def distinct_filter_keys)
  ultimately show ?thesis
    using assms(1) set_update_subset_insert [of "shards l" i] unfolding limiter_inv_def by fastforce
qed (use assms in \<open>simp add: list_update_beyond\<close>)

lemma clients_count: "limiter_inv l \<Longrightarrow> clients l ip = Some cs \<Longrightarrow> 1 \<le> rl_count cs"
  using shardFor_less [of l ip] unfolding limiter_inv_def clients_def
  by (fastforce dest: map_of_SomeD)

lemma Allow_inv [inv_intro]:
  assumes "limiter_inv l"
  shows "limiter_inv (snd (Allow now ip l))"
  using assms clients_count [OF assms, of ip]
  by (auto simp: Allow_def Let_def clients_def intro!: set_client_counts split: option.splits)

lemma Allow_params [simp]:
  "MaxRPS (snd (Allow now ip l)) = MaxRPS l" "rl_window (snd (Allow now ip l)) = rl_window l"
  by (simp_all add: Allow_def Let_def split: option.splits)

text \<open>
  C25. Sharding is invisible: \<open>Allow\<close> on the sixteen hashed shards answers and updates exactly as one
  map from clients to their windows would, for every client and every clock reading, whatever the
  hash collisions.
\<close>

theorem sharding_refines_one_map:
  assumes "limiter_inv l" "0 < MaxRPS l"
  shows "flat_allow (MaxRPS l) (rl_window l) now ip (clients l) =
     (fst (Allow now ip l), clients (snd (Allow now ip l)))"
proof -
  have n: "length (shards l) = numShards" using assms(1) by (simp add: limiter_inv_def)
  show ?thesis
    using assms(2)
    by (auto simp: flat_allow_def Allow_def Let_def clients_update [OF n] clients_def [of l ip, symmetric]
        split: option.splits)
qed

section \<open>How many requests pass\<close>

datatype rl_event = Request string int | Sweep int

fun event_time :: "rl_event \<Rightarrow> int" where
  "event_time (Request ip t) = t"
| "event_time (Sweep t) = t"

text \<open>The requests of one client that pass, over a sequence of requests and cleanup ticks.\<close>

fun passed :: "string \<Rightarrow> limiter \<Rightarrow> rl_event list \<Rightarrow> int" where
  "passed c l [] = 0"
| "passed c l (Request ip t # es) =
     (let (ok, l') = Allow t ip l in (if ip = c \<and> ok then 1 else 0) + passed c l' es)"
| "passed c l (Sweep t # es) = passed c (limiter_cleanup t l) es"

text \<open>What a client may still get before the time \<open>a + window\<close>, counted from the time \<open>a\<close>.\<close>

definition budget :: "int \<Rightarrow> int \<Rightarrow> clientState option \<Rightarrow> int" where
  "budget a n st = (case st of None \<Rightarrow> n
     | Some cs \<Rightarrow> max 0 (n - rl_count cs) + (if windowStart cs < a then n else 0))"

lemma limiter_cleanup_inv [inv_intro]: "limiter_inv l \<Longrightarrow> limiter_inv (limiter_cleanup t l)"
  by (fastforce simp: limiter_inv_def limiter_cleanup_def distinct_filter_keys)

lemma limiter_cleanup_params [simp]:
  "MaxRPS (limiter_cleanup t l) = MaxRPS l" "rl_window (limiter_cleanup t l) = rl_window l"
  by (simp_all add: limiter_cleanup_def)

lemma map_of_filter_val:
  "distinct (map fst s) \<Longrightarrow> map_of (filter (\<lambda>(k, v). P v) s) k =
     (case map_of s k of None \<Rightarrow> None | Some v \<Rightarrow> if P v then Some v else None)"
  by (induction s) (auto split: option.splits simp: map_of_eq_None_iff image_iff)

lemma clients_cleanup:
  assumes "limiter_inv l"
  shows "clients (limiter_cleanup t l) c = (case clients l c of None \<Rightarrow> None
     | Some cs \<Rightarrow> if \<not> t - windowStart cs > 2 * rl_window l then Some cs else None)"
proof -
  have i: "shardFor l c < length (shards l)" using assms by (intro shardFor_less) (simp add: limiter_inv_def)
  have sf: "shardFor (limiter_cleanup t l) = shardFor l"
    by (rule shardFor_cong) (simp add: limiter_cleanup_def)
  have "distinct (map fst (shards l ! shardFor l c))"
    using assms i nth_mem by (auto simp: limiter_inv_def)
  from map_of_filter_val [OF this] i show ?thesis
    unfolding clients_def sf by (simp add: limiter_cleanup_def)
qed

lemma budget_cleanup:
  assumes "limiter_inv l" "0 < MaxRPS l" "t \<le> a + rl_window l"
  shows "budget a (MaxRPS l) (clients (limiter_cleanup t l) c) \<le> budget a (MaxRPS l) (clients l c)"
  using assms by (auto simp: clients_cleanup budget_def limiter_inv_def split: option.splits)

lemma budget_Allow:
  assumes "limiter_inv l" "0 < MaxRPS l" "a \<le> t" "t \<le> a + rl_window l"
  shows "(if ip = c \<and> fst (Allow t ip l) then 1 else 0) + budget a (MaxRPS l) (clients (snd (Allow t ip l)) c)
       \<le> budget a (MaxRPS l) (clients l c)"
proof -
  have f: "fst (Allow t ip l) = fst (flat_allow (MaxRPS l) (rl_window l) t ip (clients l))"
    "clients (snd (Allow t ip l)) = snd (flat_allow (MaxRPS l) (rl_window l) t ip (clients l))"
    using sharding_refines_one_map [OF assms(1,2), of t ip] by simp_all
  show ?thesis
    unfolding f using assms(2-4)
    by (auto simp: flat_allow_def Let_def budget_def split: option.splits)
qed

lemma passed_le_budget:
  assumes "limiter_inv l" "0 < MaxRPS l" "list_all (\<lambda>e. a \<le> event_time e \<and> event_time e \<le> a + rl_window l) es"
  shows "passed c l es \<le> budget a (MaxRPS l) (clients l c)"
  using assms
proof (induction c l es rule: passed.induct)
  case (1 c l)
  then show ?case by (auto simp: budget_def split: option.splits)
next
  case (2 c l ip t es)
  have "passed c (snd (Allow t ip l)) es \<le> budget a (MaxRPS l) (clients (snd (Allow t ip l)) c)"
    using "2.IH" [of "Allow t ip l" "fst (Allow t ip l)" "snd (Allow t ip l)"] 2(2-4) Allow_inv [OF 2(2)]
    by simp
  then show ?case
    using budget_Allow [OF 2(2,3), of a t ip c] 2(4) by (simp add: Let_def case_prod_unfold)
next
  case (3 c l t es)
  then show ?case
    using budget_cleanup [of l t a c] limiter_cleanup_inv [OF 3(2)] by simp
qed

text \<open>
  C16. Whatever the requests of the other clients and the ticks of the cleanup, in any stretch of time
  no longer than the window at most \<open>2 * MaxRPS - 1\<close> requests of one client pass: a client's window is
  fixed, not sliding, and a stretch can meet the end of one window and the beginning of the next.
\<close>

theorem limiter_bound:
  assumes "limiter_inv l" "0 < MaxRPS l"
    and "list_all (\<lambda>e. a \<le> event_time e \<and> event_time e \<le> a + rl_window l) es"
  shows "passed c l es \<le> 2 * MaxRPS l - 1"
proof -
  have "budget a (MaxRPS l) (clients l c) \<le> 2 * MaxRPS l - 1"
    using clients_count [OF assms(1), of c] assms(2) by (auto simp: budget_def split: option.splits)
  then show ?thesis using passed_le_budget [OF assms] by (meson order_trans)
qed

text \<open>
  The bound is reached, so the limit is not one per sliding second: after one request at time 0 of
  a client limited to five requests per second, four at the end of the second and five a nanosecond
  after it all pass, nine requests within one nanosecond.
\<close>

theorem limiter_bound_reached:
  "MaxRPS (snd (Allow 0 ''10.0.0.1'' (limiter_New 5))) = 5
   \<and> passed ''10.0.0.1'' (snd (Allow 0 ''10.0.0.1'' (limiter_New 5)))
     (replicate 4 (Request ''10.0.0.1'' 1000000000) @ replicate 5 (Request ''10.0.0.1'' 1000000001)) = 9"
  by code_simp

section \<open>The global limiter\<close>

definition global_inv :: "globalLimiter \<Rightarrow> bool" where
  "global_inv l \<longleftrightarrow> 0 \<le> g_tokens l \<and> g_tokens l \<le> g_maxRPS l"

fun global_passed :: "globalLimiter \<Rightarrow> int list \<Rightarrow> int" where
  "global_passed l [] = 0"
| "global_passed l (t # ts) = (let (ok, l') = global_Allow t l in (if ok then 1 else 0) + global_passed l' ts)"

lemma global_Allow_step:
  assumes "global_inv l" "0 < g_maxRPS l" "g_last l \<le> t"
  shows "global_inv (snd (global_Allow t l))" "g_maxRPS (snd (global_Allow t l)) = g_maxRPS l"
    "g_last (snd (global_Allow t l)) = t"
    "(if fst (global_Allow t l) then 1 else 0) + g_tokens (snd (global_Allow t l))
       \<le> g_tokens l + of_int (t - g_last l) / 1000000000 * g_maxRPS l"
proof -
  have "0 \<le> of_int (t - g_last l) / 1000000000 * g_maxRPS l"
    using assms by simp
  then show "global_inv (snd (global_Allow t l))" "g_maxRPS (snd (global_Allow t l)) = g_maxRPS l"
    "g_last (snd (global_Allow t l)) = t"
    "(if fst (global_Allow t l) then 1 else 0) + g_tokens (snd (global_Allow t l))
       \<le> g_tokens l + of_int (t - g_last l) / 1000000000 * g_maxRPS l"
    using assms(1,2) unfolding global_inv_def
    by (auto simp: global_Allow_def Let_def min_def)
qed

lemma global_passed_le:
  assumes "global_inv l" "0 < g_maxRPS l" "sorted (g_last l # ts)"
  shows "of_int (global_passed l ts) \<le>
     g_tokens l + of_int (last (g_last l # ts) - g_last l) / 1000000000 * g_maxRPS l"
  using assms
proof (induction l ts rule: global_passed.induct)
  case (1 l)
  then show ?case by (simp add: global_inv_def)
next
  case (2 l t ts)
  let ?l = "snd (global_Allow t l)"
  note st = global_Allow_step [OF 2(2,3), of t]
  have t: "g_last l \<le> t" using 2(4) by simp
  have "of_int (global_passed ?l ts) \<le> g_tokens ?l + of_int (last (t # ts) - t) / 1000000000 * g_maxRPS l"
    using "2.IH" [of "global_Allow t l" "fst (global_Allow t l)" ?l] st [OF t] 2(3,4) by simp
  moreover have "of_int (global_passed l (t # ts)) =
      (if fst (global_Allow t l) then 1 else 0) + (of_int (global_passed ?l ts) :: rat)"
    by (simp add: Let_def case_prod_unfold)
  moreover have "of_int (t - g_last l) / 1000000000 * g_maxRPS l
        + of_int (last (t # ts) - t) / 1000000000 * g_maxRPS l
      = of_int (last (g_last l # t # ts) - g_last l) / 1000000000 * (g_maxRPS l :: rat)"
    by (simp add: field_simps)
  ultimately show ?case using st(4) [OF t] by linarith
qed

text \<open>
  C22. The global limiter started with a capacity of \<open>n\<close> lets at most \<open>n\<close> plus \<open>n\<close> per elapsed second
  through, for every sequence of requests.
\<close>

theorem global_bound:
  assumes "0 < n" "sorted (t0 # ts)"
  shows "of_int (global_passed (NewGlobal t0 n) ts) \<le>
     (of_int n + of_int n * of_int (last (t0 # ts) - t0) / 1000000000 :: rat)"
  using global_passed_le [of "NewGlobal t0 n" ts] assms
  by (simp add: global_inv_def NewGlobal_def mult.commute)

text \<open>
  C31. The global limiter never starves: a request that comes at least \<open>1 / maxRPS\<close> seconds after the
  previous one passes, however many were refused before.
\<close>

theorem global_no_starvation:
  assumes "global_inv l" "1 \<le> g_maxRPS l" "1000000000 \<le> of_int (t - g_last l) * g_maxRPS l"
  shows "fst (global_Allow t l)"
proof -
  have "1 \<le> of_int (t - g_last l) / 1000000000 * g_maxRPS l" using assms(3) by simp
  then have "1 \<le> g_tokens l + of_int (t - g_last l) / 1000000000 * g_maxRPS l"
    using assms(1) unfolding global_inv_def by linarith
  then show ?thesis using assms(2) by (simp add: global_Allow_def Let_def)
qed

section \<open>Witnesses\<close>

theorem sharding_refines_one_map_witness:
  "flat_allow 5 second 7 ''10.0.0.1'' Map.empty =
     (True, clients (snd (Allow 7 ''10.0.0.1'' (limiter_New 5))))"
proof -
  have "shardFor (limiter_New 5) ip < 16" for ip
    using shardFor_less [of "limiter_New 5" ip] by (simp add: limiter_New_def numShards_def)
  then have "clients (limiter_New 5) = Map.empty"
    by (simp add: clients_def limiter_New_def numShards_def fun_eq_iff)
  moreover have "fst (Allow 7 ''10.0.0.1'' (limiter_New 5))" by code_simp
  ultimately show ?thesis
    using sharding_refines_one_map [OF limiter_New_inv, of 5 7 "''10.0.0.1''"] by (simp add: limiter_New_def)
qed

theorem limiter_bound_witness:
  "passed ''a'' (limiter_New 2) (replicate 8 (Request ''a'' 5)) \<le> 3"
  using limiter_bound [OF limiter_New_inv, of 2 5 "replicate 8 (Request ''a'' 5)" "''a''"]
  by (simp add: limiter_New_def list_all_iff)

theorem global_bound_witness:
  "of_int (global_passed (NewGlobal 0 2) [1, 2, 3, 1000000003]) \<le> (of_int 2 + of_int 2 * of_int 1000000003 / 1000000000 :: rat)"
  using global_bound [of 2 0 "[1, 2, 3, 1000000003]"] by simp

theorem global_no_starvation_witness:
  "fst (global_Allow 500000000 ((NewGlobal 0 2)\<lparr>g_tokens := 0\<rparr>))"
  using global_no_starvation [of "(NewGlobal 0 2)\<lparr>g_tokens := 0\<rparr>" 500000000] by (simp add: global_inv_def NewGlobal_def)

end
