(* ===== verification/Updater.thy ===== *)
theory Updater
  imports Classifier Metrics
begin

text \<open>
  Package \<open>internal/updater\<close>: the periodic download of the Iranian ranges. What the HTTP client
  returns is the argument \<open>http\<close>; \<open>io\<close> says which call on the temporary file fails (a failing read
  of the body or write of the file gives how many bytes were copied), \<open>rf\<close> whether the reload meets a
  read error, and \<open>sio\<close>, \<open>stmp\<close> are those of the state file. One \<open>update\<close> runs on the goroutine of
  \<open>Start\<close> alone, so it is one step on the classifier, the metrics and the files; what other goroutines
  see of the file in between is the set of crash states of its system calls.
\<close>

record updater =
  u_url :: string
  u_filePath :: string
  u_statePath :: string
  u_interval :: int
  u_stopped :: bool

datatype http = HttpError | HttpResponse int string

definition updater_New :: "string \<Rightarrow> string \<Rightarrow> int \<Rightarrow> string \<Rightarrow> updater" where
  "updater_New url filePath interval statePath =
     \<lparr>u_url = url, u_filePath = filePath, u_statePath = statePath, u_interval = interval, u_stopped = False\<rparr>"

definition updater_Stop :: "updater \<Rightarrow> updater" where
  "updater_Stop u = u\<lparr>u_stopped := True\<rparr>"

text \<open>\<open>mtime\<close> is the modification time of the file, if it can be read.\<close>

definition scheduleFromMtime :: "updater \<Rightarrow> int option \<Rightarrow> int \<Rightarrow> metrics \<Rightarrow> int \<times> metrics" where
  "scheduleFromMtime u mtime now m =
     (case mtime of None \<Rightarrow> (- 1, m\<lparr>m_LastUpdateSuccess := False\<rparr>)
      | Some t \<Rightarrow>
         let m1 = m\<lparr>m_LastUpdateTime := Some t, m_LastUpdateSuccess := True\<rparr>; elapsed = now - t
         in (if elapsed \<ge> u_interval u then - 1 else u_interval u - elapsed, m1))"

text \<open>\<open>Start\<close>: the pause before the first update (none when it is not positive), and the ticker of the
  later ones; \<open>time.NewTicker\<close> panics on an interval that is not positive.\<close>

datatype plan = Plan int "int option"

definition updater_Start :: "updater \<Rightarrow> int option \<Rightarrow> int \<Rightarrow> metrics \<Rightarrow> plan \<times> metrics" where
  "updater_Start u mtime now m =
     (let (remaining, m1) = scheduleFromMtime u mtime now m
      in (Plan (if remaining > 0 then remaining else 0)
               (if u_interval u \<le> 0 then None else Some (u_interval u)), m1))"

definition minValidCIDR :: int where "minValidCIDR = 10"
definition maxReadBytes :: int where "maxReadBytes = 100 * 1024 * 1024"

fun LimitReader :: "int \<Rightarrow> string \<Rightarrow> string" where
  "LimitReader n [] = []"
| "LimitReader n (c # cs) = (if n \<le> 0 then [] else c # LimitReader (n - 1) cs)"

fun count_cidrs :: "string list \<Rightarrow> int \<Rightarrow> bool" where
  "count_cidrs [] n = False"
| "count_cidrs (line # ls) n =
     (if line = [] \<or> hd line = CHR ''#'' then count_cidrs ls n
      else if ParseCIDR_ok line
      then (if n + 1 \<ge> minValidCIDR then True else count_cidrs ls (n + 1))
      else count_cidrs ls n)"

definition containsValidCIDR :: "string \<Rightarrow> fs \<Rightarrow> bool" where
  "containsValidCIDR path fs =
     (case fs path of None \<Rightarrow> False
      | Some data \<Rightarrow> count_cidrs (fst (scan_lines (LimitReader maxReadBytes data))) 0)"

definition setUpdateSuccess ::
  "write_io \<Rightarrow> string \<Rightarrow> int \<Rightarrow> bool \<Rightarrow> updater \<Rightarrow> metrics \<times> fs \<Rightarrow> metrics \<times> fs" where
  "setUpdateSuccess sio stmp unix success u mf =
     (let (m, fs) = mf
      in (m\<lparr>m_LastUpdateSuccess := success\<rparr>,
          if u_statePath u = [] then fs
          else snd (state_Update sio stmp (u_statePath u)
            (\<lambda>st. let st1 = st\<lparr>st_LastUpdateSuccess := success\<rparr>
                  in if success then st1\<lparr>st_LastUpdateUnix := unix\<rparr> else st1) fs)))"

text \<open>The calls on the file system from the creation of the temporary file to the rename. A failed
  rename leaves the temporary file behind.\<close>

definition update_calls :: "write_io \<Rightarrow> string \<Rightarrow> string \<Rightarrow> string \<Rightarrow> fsop list" where
  "update_calls io tmp filePath body =
     (let data = LimitReader maxReadBytes body
      in if io_create_fails io then []
         else Op_create tmp #
           (case io_write_fails io of
              Some n \<Rightarrow> [Op_append tmp (take n data), Op_remove tmp]
            | None \<Rightarrow> Op_append tmp data #
                (if \<not> containsValidCIDR tmp [tmp \<mapsto> data] then [Op_remove tmp]
                 else if io_rename_fails io then [] else [Op_rename tmp filePath])))"

definition replaced :: "write_io \<Rightarrow> string \<Rightarrow> string \<Rightarrow> bool" where
  "replaced io tmp body \<longleftrightarrow> \<not> io_create_fails io \<and> io_write_fails io = None
     \<and> containsValidCIDR tmp [tmp \<mapsto> LimitReader maxReadBytes body] \<and> \<not> io_rename_fails io"

definition update ::
  "write_io \<Rightarrow> string \<Rightarrow> bool \<Rightarrow> write_io \<Rightarrow> string \<Rightarrow> int \<Rightarrow> int \<Rightarrow> http \<Rightarrow> updater \<Rightarrow>
   classifier \<times> metrics \<times> fs \<Rightarrow> classifier \<times> metrics \<times> fs" where
  "update io tmp rf sio stmp now unix http u cmf =
     (let (c, m, fs) = cmf;
          fail = (\<lambda>fs'. let (m', fs'') = setUpdateSuccess sio stmp unix False u (m, fs') in (c, m', fs''))
      in case http of
           HttpError \<Rightarrow> fail fs
         | HttpResponse status body \<Rightarrow>
             if status \<noteq> 200 then fail fs
             else let fs1 = fs_run (update_calls io tmp (u_filePath u) body) fs
             in if \<not> replaced io tmp body then fail fs1
             else case Reload rf (u_filePath u) fs1 c of
                    (Some e, c') \<Rightarrow> fail fs1
                  | (None, c') \<Rightarrow>
                      (c', m\<lparr>m_LastUpdateTime := Some now, m_LastUpdateSuccess := True\<rparr>,
                       if u_statePath u = [] then fs1
                       else snd (state_Update sio stmp (u_statePath u)
                         (\<lambda>st. st\<lparr>st_LastUpdateUnix := unix, st_LastUpdateSuccess := True\<rparr>) fs1)))"

section \<open>The file\<close>

lemma update_calls_shape:
  assumes "tmp \<noteq> filePath"
  shows "\<exists>pre post. (\<forall>x \<in> set pre. op_paths x = {tmp}) \<and> (\<forall>x \<in> set post. op_paths x = {tmp})
      \<and> (update_calls io tmp filePath body = pre
         \<or> (update_calls io tmp filePath body = pre @ Op_rename tmp filePath # post
            \<and> (\<forall>fs. fs_run pre fs tmp = Some (LimitReader maxReadBytes body))))"
proof (cases "replaced io tmp body")
  case True
  then show ?thesis
    by (intro exI [of _ "[Op_create tmp, Op_append tmp (LimitReader maxReadBytes body)]"] exI [of _ "[]"])
       (simp add: update_calls_def replaced_def Let_def)
next
  case False
  then show ?thesis
    by (intro exI [of _ "update_calls io tmp filePath body"] exI [of _ "[]"])
       (auto simp: update_calls_def replaced_def Let_def split: option.splits)
qed

interpretation ranges_file: atomic_replace update_calls "LimitReader maxReadBytes"
  by unfold_locales (rule update_calls_shape)

lemma update_calls_other:
  assumes "\<not> replaced io tmp body" "tmp \<noteq> filePath" "c \<in> set (crash_states (update_calls io tmp filePath body) fs)"
  shows "c filePath = fs filePath"
proof -
  have "\<forall>x \<in> set (update_calls io tmp filePath body). filePath \<notin> op_paths x"
    using assms(1,2) by (auto simp: update_calls_def replaced_def Let_def split: option.splits)
  moreover obtain k where "c = fs_run (take k (update_calls io tmp filePath body)) fs"
    using assms(3) by (auto simp: crash_states_iff)
  ultimately show ?thesis using set_take_subset by (fastforce intro: fs_run_other)
qed

lemma containsValidCIDR_tmp: "containsValidCIDR tmp [tmp \<mapsto> d] = containsValidCIDR p [p \<mapsto> d]"
  by (simp add: containsValidCIDR_def)


text \<open>
  C27. An update changes the classifier only as a whole and only on success: either it reports
  failure and every range is as before, or it reports success with the time of the update, and the
  ranges are exactly those a fresh load of the downloaded text gives.
\<close>

theorem update_all_or_nothing:
  assumes "update io tmp rf sio stmp now unix http u (c, m, fs) = (c', m', fs')" "tmp \<noteq> u_filePath u"
  shows "(c' = c \<and> \<not> m_LastUpdateSuccess m' \<and> m_LastUpdateTime m' = m_LastUpdateTime m)
     \<or> (\<exists>body. http = HttpResponse 200 body \<and> m_LastUpdateSuccess m' \<and> m_LastUpdateTime m' = Some now
          \<and> classifier_New rf (u_filePath u) [u_filePath u \<mapsto> LimitReader maxReadBytes body] = Inr c')"
proof (cases http)
  case HttpError
  then show ?thesis using assms(1) by (auto simp: update_def setUpdateSuccess_def)
next
  case (HttpResponse status body)
  let ?fs1 = "fs_run (update_calls io tmp (u_filePath u) body) fs"
  show ?thesis
  proof (cases "status = 200 \<and> replaced io tmp body")
    case False
    then show ?thesis
      using assms(1) HttpResponse by (cases "status = 200") (auto simp: update_def setUpdateSuccess_def Let_def)
  next
    case True
    have "?fs1 (u_filePath u) = Some (LimitReader maxReadBytes body)"
      using True assms(2) by (auto simp: update_calls_def replaced_def Let_def)
    then have n: "classifier_New rf (u_filePath u) ?fs1
        = classifier_New rf (u_filePath u) [u_filePath u \<mapsto> LimitReader maxReadBytes body]"
      by (simp add: classifier_New_def)
    then show ?thesis
      using assms(1) HttpResponse True
      by (auto simp: update_def setUpdateSuccess_def Let_def Reload_def split: sum.splits)
  qed
qed

text \<open>
  The pause before the first update is at most the interval, and none when the file is missing or
  at least one interval old.
\<close>

theorem scheduleFromMtime_bounds:
  assumes "scheduleFromMtime u mtime now m = (d, m')" "\<forall>t. mtime = Some t \<longrightarrow> t \<le> now"
  shows "(d = - 1 \<and> (mtime = None \<or> (\<exists>t. mtime = Some t \<and> u_interval u \<le> now - t)))
     \<or> (0 < d \<and> d \<le> u_interval u \<and> (\<exists>t. mtime = Some t \<and> t + u_interval u = now + d))"
  using assms by (auto simp: scheduleFromMtime_def Let_def split: option.splits if_splits)

definition zero_padded :: string where
  "zero_padded = line_text (replicate 10 ''5.22.0.0/017'')"

text \<open>
  C40. The check before the replacement is weaker than the load after it: \<open>net.ParseCIDR\<close> accepts a
  prefix length with a leading zero, \<open>netip.ParsePrefix\<close> does not. A download of ten such lines
  replaces the file, the reload fails, and the file left on disk no longer loads, so the next start
  of the program fails too.
\<close>

theorem update_leaves_unloadable_file:
  "\<exists>c' m' fs'. update io_fine ''t'' False io_fine ''t'' 0 0 (HttpResponse 200 zero_padded)
       (updater_New ''url'' ''r'' hour []) (c, m, [''r'' \<mapsto> old]) = (c', m', fs')
     \<and> c' = c \<and> \<not> m_LastUpdateSuccess m' \<and> fs' ''r'' = Some zero_padded
     \<and> classifier_New False ''r'' fs' = Inl ClsNoRanges"
proof -
  let ?z = "LimitReader maxReadBytes zero_padded"
  have z: "?z = zero_padded" by code_simp
  have v: "containsValidCIDR ''t'' [''t'' \<mapsto> zero_padded]" by code_simp
  let ?fs1 = "fs_run (update_calls io_fine ''t'' ''r'' zero_padded) [''r'' \<mapsto> old]"
  have f: "?fs1 ''r'' = Some zero_padded"
    using v by (simp add: update_calls_def z io_fine_def)
  have "classifier_New False ''r'' [''r'' \<mapsto> zero_padded] = Inl ClsNoRanges" by code_simp
  then have n: "classifier_New False ''r'' ?fs1 = Inl ClsNoRanges"
    using f by (simp add: classifier_New_def)
  have "replaced io_fine ''t'' zero_padded" using v z by (simp add: replaced_def io_fine_def)
  then show ?thesis
    using n f by (simp add: update_def setUpdateSuccess_def updater_New_def Reload_def)
qed

section \<open>Witnesses\<close>

definition sample_body :: string where
  "sample_body = line_text (replicate 10 ''5.22.0.0/17'')"


definition sample_update :: "classifier \<times> metrics \<times> fs" where
  "sample_update = update io_fine ''t'' False io_fine ''t'' 5 0
      (HttpResponse 200 sample_body) (updater_New ''url'' ''r'' hour [])
      (\<lparr>iranRanges4 = [], iranRanges6 = []\<rparr>, metrics_New 0, Map.empty)"

theorem update_all_or_nothing_witness:
  "m_LastUpdateSuccess (fst (snd sample_update))
   \<and> classifier_New False ''r'' [''r'' \<mapsto> LimitReader maxReadBytes sample_body] = Inr (fst sample_update)"
proof -
  obtain c' m' fs' where u: "sample_update = (c', m', fs')" by (metis prod_cases3)
  have "m_LastUpdateSuccess (fst (snd sample_update))" by code_simp
  then have s: "m_LastUpdateSuccess m'" unfolding u by simp
  show ?thesis
    unfolding u using update_all_or_nothing [OF u [unfolded sample_update_def]] s
    by (auto simp: updater_New_def)
qed

theorem scheduleFromMtime_bounds_witness:
  "\<exists>d m'. scheduleFromMtime (updater_New [] [] hour []) (Some 0) (hour - 1) (metrics_New 0) = (d, m') \<and> d = 1"
proof -
  obtain d m' where s: "scheduleFromMtime (updater_New [] [] hour []) (Some 0) (hour - 1) (metrics_New 0) = (d, m')"
    by fastforce
  from scheduleFromMtime_bounds [OF s] s show ?thesis by (auto simp: updater_New_def)
qed

end
