(* ===== verification/Config.thy ===== *)
theory Config
  imports Complex_Main File_System Resolver_State
begin

text \<open>
  Package \<open>internal/config\<close>, and \<open>time.ParseDuration\<close>, with which \<open>main\<close> reads the durations of the
  configuration. The YAML decoder (\<open>gopkg.in/yaml.v3\<close>) is not part of the repository: it is the
  argument \<open>decode\<close> of \<open>config_Load\<close>, a function from the text and the defaults to the decoded
  configuration, with the end of an empty file told apart from other errors. A \<open>float64\<close> is a
  rational, an infinity or NaN; \<open>int\<close> fields are integers.
\<close>

datatype f64 = Fin rat | PInf | NInf | NaN

definition f64_le_zero :: "f64 \<Rightarrow> bool" where
  "f64_le_zero x = (case x of Fin q \<Rightarrow> q \<le> 0 | NInf \<Rightarrow> True | PInf \<Rightarrow> False | NaN \<Rightarrow> False)"

record Config =
  IranDNS :: string
  GlobalDNS :: string
  Listen :: string
  MinTTL :: int
  MaxTTL :: int
  IranRanges :: string
  Learned :: string
  IranDNSTimeout :: int
  LogLevel :: string
  LogFormat :: string
  LogFile :: string
  MetricsAddr :: string
  IranTLDs :: "string list"
  HijackIPs :: "string list"
  HijackRanges :: "string list"
  PreferIranDomains :: "string list"
  IranRangesURL :: string
  IranRangesUpdateInterval :: string
  StateFile :: string
  CleanupInitialDelay :: string
  CleanupQPS :: int
  GlobalDNSTimeout :: f64
  GlobalDNSFallback :: string
  CleanupSchedule :: string
  CacheMaxEntries :: int
  RateLimitPerClient :: int
  GlobalQPSLimit :: int
  LoopDetection :: bool
  IranCBThreshold :: int
  IranCBCooldown :: string
  GlobalCBThreshold :: int
  GlobalCBCooldown :: string
  StaticRecords :: "(string \<times> string) list"

text \<open>The Persian top-level domain of the defaults, in UTF-8.\<close>

definition persian_tld :: string where
  "persian_tld = [CHR 0xD8, CHR 0xA7, CHR 0xDB, CHR 0x8C, CHR 0xD8, CHR 0xB1, CHR 0xD8, CHR 0xA7, CHR 0xD9, CHR 0x86]"

definition defaultConfig :: Config where
  "defaultConfig = \<lparr>
     IranDNS = [], GlobalDNS = [], Listen = '':53'', MinTTL = 300, MaxTTL = 3600,
     IranRanges = ''data/iran-ranges.txt'', Learned = ''data/learned.conf'', IranDNSTimeout = 3,
     LogLevel = ''info'', LogFormat = ''json'', LogFile = ''/var/log/sentrydns/sentrydns.log'',
     MetricsAddr = '':9153'', IranTLDs = [''ir'', persian_tld],
     HijackIPs = [''10.10.34.34'', ''10.10.34.35'', ''10.10.34.36''], HijackRanges = [''50.7.0.0/16''],
     PreferIranDomains = [],
     IranRangesURL = ''https://raw.githubusercontent.com/farshidmousavii/iran-ip/main/ipv4.txt'',
     IranRangesUpdateInterval = ''24h'', StateFile = ''data/.sentrydns-state'',
     CleanupInitialDelay = ''1h'', CleanupQPS = 100, GlobalDNSTimeout = Fin (3 / 2), GlobalDNSFallback = [],
     CleanupSchedule = ''02:00'', CacheMaxEntries = 100000, RateLimitPerClient = 0, GlobalQPSLimit = 0,
     LoopDetection = True, IranCBThreshold = 5, IranCBCooldown = ''30s'', GlobalCBThreshold = 5,
     GlobalCBCooldown = ''30s'', StaticRecords = []\<rparr>"

datatype cfg_error =
    NoIranDNS | NoGlobalDNS | NoListen | NoIranRanges | NoLearned | NoMetricsAddr | BadMinTTL | BadMaxTTL
  | MinExceedsMax | BadIranTimeout | BadCleanupQPS | NoCleanupDelay | BadGlobalQPS | BadGlobalTimeout
  | EmptyStaticDomain | BadStaticIP string string | CfgOpen | CfgDecode

fun check_static :: "(string \<times> string) list \<Rightarrow> cfg_error option" where
  "check_static [] = None"
| "check_static ((domain, ip) # rs) =
     (if TrimSpace domain = [] then Some EmptyStaticDomain
      else if ParseIP ip = None then Some (BadStaticIP domain ip)
      else check_static rs)"

definition Validate :: "Config \<Rightarrow> cfg_error option" where
  "Validate c =
     (if IranDNS c = [] then Some NoIranDNS
      else if GlobalDNS c = [] then Some NoGlobalDNS
      else if Listen c = [] then Some NoListen
      else if IranRanges c = [] then Some NoIranRanges
      else if Learned c = [] then Some NoLearned
      else if MetricsAddr c = [] then Some NoMetricsAddr
      else if MinTTL c \<le> 0 then Some BadMinTTL
      else if MaxTTL c \<le> 0 then Some BadMaxTTL
      else if MinTTL c > MaxTTL c then Some MinExceedsMax
      else if IranDNSTimeout c \<le> 0 then Some BadIranTimeout
      else if CleanupQPS c \<le> 0 then Some BadCleanupQPS
      else if CleanupInitialDelay c = [] then Some NoCleanupDelay
      else if GlobalQPSLimit c < 0 then Some BadGlobalQPS
      else if f64_le_zero (GlobalDNSTimeout c) then Some BadGlobalTimeout
      else check_static (StaticRecords c))"

datatype decoded = Decoded Config | DecodeEOF Config | DecodeError

text \<open>\<open>Load\<close> returns the configuration also when it is not valid; the caller looks at the error.\<close>

definition config_Load :: "(string \<Rightarrow> Config \<Rightarrow> decoded) \<Rightarrow> string \<Rightarrow> fs \<Rightarrow> Config option \<times> cfg_error option" where
  "config_Load decode path fs =
     (case fs path of None \<Rightarrow> (None, Some CfgOpen)
      | Some text \<Rightarrow>
         (case decode text defaultConfig of
            DecodeError \<Rightarrow> (None, Some CfgDecode)
          | Decoded cfg \<Rightarrow> (Some cfg, Validate cfg)
          | DecodeEOF cfg \<Rightarrow> (Some cfg, Validate cfg)))"

section \<open>time.ParseDuration\<close>

text \<open>The integer part: \<^const>\<open>None\<close> when it exceeds \<open>2 ^ 63\<close>.\<close>

fun leadingInt :: "int \<Rightarrow> string \<Rightarrow> (int \<times> string) option" where
  "leadingInt x [] = Some (x, [])"
| "leadingInt x (c # cs) =
     (case digit_val c of None \<Rightarrow> Some (x, c # cs)
      | Some d \<Rightarrow> if x > 2 ^ 63 div 10 then None
                 else let y = x * 10 + d in if y > 2 ^ 63 then None else leadingInt y cs)"

text \<open>The fraction as a number and a power of ten; digits beyond 63 bits are read and ignored.\<close>

fun leadingFraction :: "int \<Rightarrow> int \<Rightarrow> bool \<Rightarrow> string \<Rightarrow> int \<times> int \<times> string" where
  "leadingFraction x scale ovf [] = (x, scale, [])"
| "leadingFraction x scale ovf (c # cs) =
     (case digit_val c of None \<Rightarrow> (x, scale, c # cs)
      | Some d \<Rightarrow> if ovf then leadingFraction x scale True cs
                 else if x > (2 ^ 63 - 1) div 10 then leadingFraction x scale True cs
                 else let y = x * 10 + d
                      in if y > 2 ^ 63 then leadingFraction x scale True cs
                         else leadingFraction y (scale * 10) False cs)"

definition unit_of :: "string \<Rightarrow> int option" where
  "unit_of u = map_of [(''ns'', 1), (''us'', 1000), ([CHR 0xC2, CHR 0xB5, CHR ''s''], 1000),
     ([CHR 0xCE, CHR 0xBC, CHR ''s''], 1000), (''ms'', 1000000), (''s'', 1000000000),
     (''m'', 60000000000), (''h'', 3600000000000)] u"

text \<open>One number with its unit; the product with the fraction is rounded down.\<close>

definition parse_term :: "string \<Rightarrow> (int \<times> string) option" where
  "parse_term s =
     (if s = [] \<or> \<not> (hd s = DOT \<or> digit_val (hd s) \<noteq> None) then None
      else case leadingInt 0 s of None \<Rightarrow> None
      | Some (v, s1) \<Rightarrow>
         let pre = (length s1 \<noteq> length s);
             dotted = (s1 \<noteq> [] \<and> hd s1 = DOT);
             (f, scale, s2) = (if dotted then leadingFraction 0 1 False (tl s1) else (0, 1, s1));
             post = (dotted \<and> length s2 \<noteq> length (tl s1));
             u = takeWhile (\<lambda>c. \<not> (c = DOT \<or> digit_val c \<noteq> None)) s2
         in if \<not> pre \<and> \<not> post then None
            else if u = [] then None
            else case unit_of u of None \<Rightarrow> None
            | Some unit \<Rightarrow>
               if v > 2 ^ 63 div unit then None
               else let w = v * unit + (if f > 0 then f * unit div scale else 0)
                    in if w > 2 ^ 63 then None else Some (w, drop (length u) s2))"

lemma leadingInt_length: "leadingInt x s = Some (v, s') \<Longrightarrow> length s' \<le> length s"
  by (induction x s rule: leadingInt.induct) (fastforce simp: Let_def split: option.splits if_splits)+

lemma leadingFraction_length: "length (snd (snd (leadingFraction x sc b s))) \<le> length s"
  by (induction x sc b s rule: leadingFraction.induct) (auto simp: Let_def le_SucI split: option.splits)

lemma parse_term_shorter:
  assumes "parse_term s = Some (w, s')"
  shows "length s' < length s"
proof -
  obtain v s1 where v: "leadingInt 0 s = Some (v, s1)"
    using assms by (auto simp: parse_term_def split: if_splits option.splits)
  let ?t = "if s1 \<noteq> [] \<and> hd s1 = DOT then leadingFraction 0 1 False (tl s1) else (0, 1, s1)"
  obtain f sc s2 where t: "?t = (f, sc, s2)" by (metis prod_cases3)
  let ?u = "takeWhile (\<lambda>c. \<not> (c = DOT \<or> digit_val c \<noteq> None)) s2"
  have "?u \<noteq> []" "s' = drop (length ?u) s2"
    using assms v t by (auto simp: parse_term_def Let_def split: if_splits option.splits)
  then have "length s' < length s2" by (cases s2) auto
  moreover have "length s2 \<le> length s1"
    using t leadingFraction_length [of 0 1 False "tl s1"] by (auto split: if_splits)
  ultimately show ?thesis using leadingInt_length [OF v] by simp
qed

function parse_terms :: "int \<Rightarrow> string \<Rightarrow> int option" where
  "parse_terms d s =
     (if s = [] then Some d
      else case parse_term s of None \<Rightarrow> None
      | Some (w, s') \<Rightarrow> let d' = d + w in if d' > 2 ^ 63 then None else parse_terms d' s')"
  by pat_completeness auto
termination
  by (relation "measure (\<lambda>(d, s). length s)") (auto simp: parse_term_shorter)

declare parse_terms.simps [simp del]

definition ParseDuration :: "string \<Rightarrow> int option" where
  "ParseDuration s0 =
     (let neg = (s0 \<noteq> [] \<and> hd s0 = CHR ''-'');
          s = (if s0 \<noteq> [] \<and> (hd s0 = CHR ''-'' \<or> hd s0 = CHR ''+'') then tl s0 else s0)
      in if s = ''0'' then Some 0
         else if s = [] then None
         else case parse_terms 0 s of None \<Rightarrow> None
         | Some d \<Rightarrow> if neg then Some (- d) else if d > 2 ^ 63 - 1 then None else Some d)"

section \<open>Lemmas\<close>

lemma leadingInt_nonneg: "0 \<le> x \<Longrightarrow> leadingInt x s = Some (v, s') \<Longrightarrow> 0 \<le> v"
  by (induction x s rule: leadingInt.induct)
     (auto simp: Let_def digit_val_def split: option.splits if_splits)

lemma leadingFraction_nonneg:
  "0 \<le> x \<Longrightarrow> 0 < sc \<Longrightarrow> leadingFraction x sc b s = (f, sc', s') \<Longrightarrow> 0 \<le> f \<and> 0 < sc'"
  by (induction x sc b s rule: leadingFraction.induct)
     (auto simp: Let_def digit_val_def split: option.splits if_splits)

lemma unit_of_pos: "unit_of u = Some n \<Longrightarrow> 0 < n"
  by (auto simp: unit_of_def split: if_splits)

lemma parse_term_nonneg:
  assumes "parse_term s = Some (w, s')"
  shows "0 \<le> w"
proof -
  obtain v s1 where v: "leadingInt 0 s = Some (v, s1)"
    using assms by (auto simp: parse_term_def split: if_splits option.splits)
  let ?t = "if s1 \<noteq> [] \<and> hd s1 = DOT then leadingFraction 0 1 False (tl s1) else (0, 1, s1)"
  obtain f sc s2 where t: "?t = (f, sc, s2)" by (metis prod_cases3)
  have f: "0 \<le> f" "0 < sc"
    using t leadingFraction_nonneg [of 0 1 False "tl s1" f sc s2] by (auto split: if_splits)
  obtain u n where n: "unit_of u = Some n" and w: "w = v * n + (if f > 0 then f * n div sc else 0)"
    using assms v t by (auto simp: parse_term_def Let_def split: if_splits option.splits)
  have "0 \<le> v * n" "0 \<le> f * n div sc"
    using leadingInt_nonneg [OF _ v] unit_of_pos [OF n] f by (simp_all add: pos_imp_zdiv_nonneg_iff)
  then show ?thesis by (simp add: w)
qed

lemma parse_terms_bounds: "0 \<le> d \<Longrightarrow> d \<le> 2 ^ 63 \<Longrightarrow> parse_terms d s = Some x \<Longrightarrow> 0 \<le> x \<and> x \<le> 2 ^ 63"
proof (induction d s rule: parse_terms.induct)
  case (1 d s)
  show ?case
  proof (cases "s = []")
    case True
    then show ?thesis using 1(2-4) by (simp add: parse_terms.simps)
  next
    case False
    then obtain w s' where w: "parse_term s = Some (w, s')" "\<not> d + w > 2 ^ 63" "parse_terms (d + w) s' = Some x"
      using 1(4) by (subst (asm) parse_terms.simps) (auto simp: Let_def split: option.splits if_splits)
    have "0 \<le> d + w" using parse_term_nonneg [OF w(1)] 1(2) by simp
    with "1.IH" [OF False w(1) refl refl w(2)] w show ?thesis by simp
  qed
qed

text \<open>
  A duration that parses fits into 64 signed bits: nothing the configuration can write as a
  duration wraps around.
\<close>

theorem ParseDuration_fits:
  assumes "ParseDuration s = Some d"
  shows "- (2 ^ 63) \<le> d \<and> d < 2 ^ 63"
  using assms parse_terms_bounds [of 0]
  by (fastforce simp: ParseDuration_def Let_def split: if_splits option.splits)

section \<open>Static records\<close>

lemma static_map_other:
  "k \<notin> set (map (\<lambda>(d, ip). ToLower (Fqdn L d)) rs) \<Longrightarrow> map_of (static_map L rs m) k = map_of m k"
  by (induction L rs m rule: static_map.induct) (auto simp: map_of_put_key split: option.splits)

lemma static_map_found:
  "distinct (map (\<lambda>(d, ip). ToLower (Fqdn L d)) rs) \<Longrightarrow> (d, ip) \<in> set rs \<Longrightarrow> ParseAddr ip = Some a \<Longrightarrow>
   map_of (static_map L rs m) (ToLower (Fqdn L d)) = Some a"
proof (induction L rs m rule: static_map.induct)
  case (2 L x y rs m)
  then show ?case by (auto simp: static_map_other map_of_put_key)
qed simp

lemma check_static_ok: "check_static rs = None \<Longrightarrow> (d, ip) \<in> set rs \<Longrightarrow> \<exists>a. ParseAddr ip = Some a \<and> Zone a = []"
  by (induction rs rule: check_static.induct) (auto simp: ParseIP_def split: if_splits option.splits)

text \<open>
  C32. A validated configuration loses no static record: \<open>Validate\<close> accepts an address with
  \<open>net.ParseIP\<close>, \<open>SetStaticRecords\<close> silently skips what \<open>netip.ParseAddr\<close> refuses, and every
  address the first accepts the second parses, so each configured name is found, under its own
  address and in any case of letters, when no two configured names are equal up to case and the
  final dot.
\<close>

theorem validated_static_records_kept:
  assumes "Validate c = None" "distinct (map (\<lambda>(d, ip). ToLower (Fqdn L d)) (StaticRecords c))"
    and "(d, ip) \<in> set (StaticRecords c)" "ToLower name = ToLower (Fqdn L d)"
  shows "staticLookup (SetStaticRecords L (StaticRecords c) r) name = ParseAddr ip \<and> ParseAddr ip \<noteq> None"
proof -
  have "check_static (StaticRecords c) = None"
    using assms(1) by (simp add: Validate_def split: if_splits)
  then obtain a where "ParseAddr ip = Some a" using check_static_ok assms(3) by blast
  then show ?thesis
    using static_map_found [OF assms(2,3)] assms(4) by (simp add: staticLookup_def SetStaticRecords_def)
qed

text \<open>The conversion of the limits to 32 bits.\<close>

lemma ttl_limits_fit:
  assumes "Validate c = None" "MaxTTL c < 2 ^ 32"
  shows "MinTTL c \<le> uint (clamp_ttl (of_int (MinTTL c)) (of_int (MaxTTL c)) t)
       \<and> uint (clamp_ttl (of_int (MinTTL c)) (of_int (MaxTTL c)) t) \<le> MaxTTL c"
proof -
  have b: "0 < MinTTL c" "MinTTL c \<le> MaxTTL c"
    using assms(1) by (auto simp: Validate_def split: if_splits)
  then have u: "uint (of_int (MinTTL c) :: 32 word) = MinTTL c" "uint (of_int (MaxTTL c) :: 32 word) = MaxTTL c"
    using assms(2) by (simp_all add: uint_word_of_int)
  then have "(of_int (MinTTL c) :: 32 word) \<le> of_int (MaxTTL c)" using b by (simp add: word_le_def)
  from clamp_ttl_bounds [OF this, of t] show ?thesis by (simp add: word_le_def u)
qed

text \<open>
  A timeout that is not a number passes the validation: \<open>global_dns_timeout: .nan\<close> is not less
  than or equal to zero.
\<close>

theorem nan_timeout_accepted:
  "Validate (defaultConfig\<lparr>IranDNS := ''5.5.5.5'', GlobalDNS := ''8.8.8.8'', GlobalDNSTimeout := NaN\<rparr>) = None"
  by (simp add: Validate_def defaultConfig_def f64_le_zero_def)

section \<open>Witnesses\<close>

theorem ParseDuration_fits_witness: "ParseDuration ''1h1.5s'' = Some 3601500000000 \<and> (3601500000000 :: int) < 2 ^ 63"
proof -
  have p: "ParseDuration ''1h1.5s'' = Some 3601500000000" by code_simp
  from ParseDuration_fits [OF p] p show ?thesis by blast
qed

definition sample_config :: Config where
  "sample_config = defaultConfig\<lparr>IranDNS := ''5.5.5.5'', GlobalDNS := ''8.8.8.8'',
     StaticRecords := [(''Router.lan'', ''192.168.1.1'')]\<rparr>"

lemma sample_config_valid: "Validate sample_config = None"
proof -
  have "check_static [(''Router.lan'', ''192.168.1.1'')] = None" by code_simp
  then show ?thesis by (simp add: sample_config_def Validate_def defaultConfig_def f64_le_zero_def)
qed

theorem validated_static_records_kept_witness:
  "\<forall>r. staticLookup (SetStaticRecords sample_lib (StaticRecords sample_config) r) ''ROUTER.lan.'' = Some (V4 0xC0A80101)"
proof
  fix r
  have n: "ToLower ''ROUTER.lan.'' = ToLower (Fqdn sample_lib ''Router.lan'')" by code_simp
  have a: "ParseAddr ''192.168.1.1'' = Some (V4 0xC0A80101)" by code_simp
  show "staticLookup (SetStaticRecords sample_lib (StaticRecords sample_config) r) ''ROUTER.lan.'' = Some (V4 0xC0A80101)"
    using validated_static_records_kept [OF sample_config_valid _ _ n, of "''192.168.1.1''" r] a
    by (simp add: sample_config_def)
qed

end
