(* ===== verification/Logger.thy ===== *)
theory Logger
  imports File_System
begin

text \<open>
  Package \<open>internal/logger\<close>: the level switch of \<open>New\<close>, the writer it builds (standard output, and the
  log file behind a mutex when it could be opened), and the closer. A record carries its level and the
  line the JSON or the text handler of \<open>log/slog\<close> makes of it, with the newline; the handler drops
  records below its level and hands each line to the writer in one call, under its own lock, so
  records follow each other. What \<open>io.MultiWriter\<close> does after an error is written out: it stops.
\<close>

section \<open>Levels\<close>

datatype level = LevelDebug | LevelInfo | LevelWarn | LevelError

fun level_num :: "level \<Rightarrow> int" where
  "level_num LevelDebug = - 4" | "level_num LevelInfo = 0" | "level_num LevelWarn = 4" | "level_num LevelError = 8"

instantiation level :: linorder
begin

definition less_eq_level :: "level \<Rightarrow> level \<Rightarrow> bool" where
  "a \<le> b \<longleftrightarrow> level_num a \<le> level_num b"

definition less_level :: "level \<Rightarrow> level \<Rightarrow> bool" where
  "a < b \<longleftrightarrow> level_num a < level_num b"

instance
proof
  fix a b :: level
  show "a \<le> b \<Longrightarrow> b \<le> a \<Longrightarrow> a = b" by (cases a; cases b) (simp_all add: less_eq_level_def)
qed (auto simp: less_eq_level_def less_level_def)

end

definition parse_level :: "string \<Rightarrow> level" where
  "parse_level s =
     (if s = ''debug'' then LevelDebug else if s = ''warn'' then LevelWarn
      else if s = ''error'' then LevelError else LevelInfo)"

section \<open>The file\<close>

record lockedFile =
  lf_path :: string
  lf_closed :: bool

text \<open>The outcome of one \<open>Write\<close>: all of the data, or the first \<open>k\<close> bytes and an error.\<close>

type_synonym write_outcome = "nat option"

definition cut :: "write_outcome \<Rightarrow> string \<Rightarrow> string" where
  "cut w d = (case w of None \<Rightarrow> d | Some k \<Rightarrow> take k d)"

definition lockedFile_Write :: "write_outcome \<Rightarrow> string \<Rightarrow> lockedFile \<Rightarrow> fs \<Rightarrow> bool \<times> fs" where
  "lockedFile_Write w d l fs =
     (if lf_closed l then (False, fs) else (w = None, fs_apply (Op_append (lf_path l) (cut w d)) fs))"

text \<open>\<open>Sync\<close> forces to the disk what is written; the file system of the model holds it already.\<close>

definition lockedFile_Close :: "lockedFile \<Rightarrow> lockedFile" where
  "lockedFile_Close l = l\<lparr>lf_closed := True\<rparr>"

section \<open>The logger\<close>

record logger =
  lg_level :: level
  lg_json :: bool
  lg_file :: "lockedFile option"

text \<open>\<open>New\<close>; a file that cannot be opened leaves standard output alone.\<close>

definition logger_New :: "bool \<Rightarrow> string \<Rightarrow> bool \<Rightarrow> string \<Rightarrow> fs \<Rightarrow> logger \<times> fs" where
  "logger_New open_fails lvl jsonFormat logFile fs =
     (let opened = logFile \<noteq> [] \<and> \<not> open_fails
      in (\<lparr>lg_level = parse_level lvl, lg_json = jsonFormat,
           lg_file = (if opened then Some \<lparr>lf_path = logFile, lf_closed = False\<rparr> else None)\<rparr>,
          if opened then fs_apply (Op_append logFile []) fs else fs))"

record log_record =
  rc_level :: level
  rc_line :: "bool \<Rightarrow> string"

text \<open>One record: standard output first, then the file unless standard output failed.\<close>

definition log_write :: "logger \<Rightarrow> log_record \<times> write_outcome \<times> write_outcome \<Rightarrow> string \<times> fs \<Rightarrow> string \<times> fs" where
  "log_write lg rww st =
     (let (r, w1, w2) = rww; (out, fs) = st; d = rc_line r (lg_json lg)
      in if rc_level r < lg_level lg then (out, fs)
         else let out' = out @ cut w1 d
              in if w1 \<noteq> None then (out', fs)
                 else case lg_file lg of None \<Rightarrow> (out', fs)
                      | Some l \<Rightarrow> (out', snd (lockedFile_Write w2 d l fs)))"

definition log_run :: "logger \<Rightarrow> (log_record \<times> write_outcome \<times> write_outcome) list \<Rightarrow> string \<times> fs \<Rightarrow> string \<times> fs" where
  "log_run lg rs st = fold (log_write lg) rs st"

definition closer :: "logger \<Rightarrow> logger" where
  "closer lg = lg\<lparr>lg_file := map_option lockedFile_Close (lg_file lg)\<rparr>"

section \<open>What is logged\<close>

definition lines_of :: "logger \<Rightarrow> log_record list \<Rightarrow> string" where
  "lines_of lg rs = concat (map (\<lambda>r. rc_line r (lg_json lg)) (filter (\<lambda>r. lg_level lg \<le> rc_level r) rs))"

lemma lines_of_Cons:
  "lines_of lg (r # rs) = (if lg_level lg \<le> rc_level r then rc_line r (lg_json lg) else []) @ lines_of lg rs"
  by (simp add: lines_of_def)

lemma log_run_Cons: "log_run lg (x # xs) st = log_run lg xs (log_write lg x st)"
  by (simp add: log_run_def)

text \<open>The file receives the lines whose write to standard output went through.\<close>

lemma log_run_file:
  assumes "lg_file lg = Some \<lparr>lf_path = p, lf_closed = False\<rparr>" "fs p = Some c"
    and "list_all (\<lambda>(r, w1, w2). w2 = None) rs" "log_run lg rs (out, fs) = (out', fs')"
  shows "fs' p = Some (c @ lines_of lg (map fst (filter (\<lambda>(r, w1, w2). w1 = None) rs)))
     \<and> (\<forall>q. q \<noteq> p \<longrightarrow> fs' q = fs q)"
  using assms(2-4)
proof (induction rs arbitrary: out fs c)
  case (Cons x xs)
  obtain r w1 where x: "x = (r, w1, None)" using Cons(3) by (cases x) auto
  obtain o1 f1 where s: "log_write lg x (out, fs) = (o1, f1)" by fastforce
  have f1: "f1 p = Some (c @ (if w1 = None \<and> lg_level lg \<le> rc_level r then rc_line r (lg_json lg) else []))
     \<and> (\<forall>q. q \<noteq> p \<longrightarrow> f1 q = fs q)"
    using s Cons(2) assms(1)
    by (auto simp: x log_write_def lockedFile_Write_def cut_def Let_def split: if_splits)
  then show ?case
    using Cons(1) [of f1 _ o1] Cons(3,4) s by (auto simp: x log_run_Cons lines_of_Cons)
qed (simp add: log_run_def lines_of_def)

lemma log_run_stdout:
  assumes "list_all (\<lambda>(r, w1, w2). w1 = None) rs" "log_run lg rs (out, fs) = (out', fs')"
  shows "out' = out @ lines_of lg (map fst rs)"
  using assms
proof (induction rs arbitrary: out fs)
  case (Cons x xs)
  obtain r w2 where x: "x = (r, None, w2)" using Cons(2) by (cases x) auto
  obtain o1 f1 where s: "log_write lg x (out, fs) = (o1, f1)" by fastforce
  have "o1 = out @ (if lg_level lg \<le> rc_level r then rc_line r (lg_json lg) else [])"
    using s by (auto simp: x log_write_def cut_def Let_def split: if_splits option.splits)
  then show ?case using Cons(1) [of o1 f1] Cons(2,3) s by (simp add: x log_run_Cons lines_of_Cons)
qed (simp add: log_run_def lines_of_def)


text \<open>
  The log file depends on standard output: a record whose write to standard output fails (a full disk
  behind a redirection, say) is not written to the file either, although the file is writable.
\<close>

theorem stdout_failure_silences_file:
  assumes "list_all (\<lambda>(r, w1, w2). w1 \<noteq> None) rs" "log_run lg rs (out, fs) = (out', fs')"
  shows "fs' = fs"
  using assms
proof (induction rs arbitrary: out)
  case (Cons x xs)
  obtain r k w2 where x: "x = (r, Some k, w2)" using Cons(2) by (cases x) auto
  then have "snd (log_write lg x (out, fs)) = fs" by (simp add: log_write_def Let_def)
  then obtain o1 where "log_write lg x (out, fs) = (o1, fs)" by (metis prod.collapse)
  then show ?case using Cons(1) [of o1] Cons(2,3) by (simp add: log_run_Cons)
qed (simp add: log_run_def)

text \<open>After the closer nothing more reaches the file.\<close>

lemma closed_file_untouched: "snd (log_run (closer lg) rs (out, fs)) = fs"
proof (induction rs arbitrary: out)
  case (Cons x xs)
  have "snd (log_write (closer lg) x (out, fs)) = fs"
    by (auto simp: log_write_def closer_def lockedFile_Close_def lockedFile_Write_def Let_def split: prod.splits option.splits)
  then obtain o1 where "log_write (closer lg) x (out, fs) = (o1, fs)" by (metis prod.collapse)
  then show ?case using Cons by (simp add: log_run_Cons)
qed (simp add: log_run_def)

section \<open>Witnesses\<close>

definition sample_log :: "(log_record \<times> write_outcome \<times> write_outcome) list" where
  "sample_log = [(\<lparr>rc_level = LevelInfo, rc_line = (\<lambda>_. ''i'')\<rparr>, None, None),
     (\<lparr>rc_level = LevelError, rc_line = (\<lambda>j. if j then ''J'' else ''T'')\<rparr>, None, None)]"


theorem stdout_failure_silences_file_witness:
  "\<exists>lg fs1 out' fs'. logger_New False ''warn'' False ''l'' Map.empty = (lg, fs1)
     \<and> log_run lg [(\<lparr>rc_level = LevelError, rc_line = (\<lambda>_. ''T'')\<rparr>, Some 0, None)] ([], fs1) = (out', fs') \<and> fs' ''l'' = Some []"
proof -
  let ?rs = "[(\<lparr>rc_level = LevelError, rc_line = (\<lambda>_. ''T'')\<rparr>, Some 0, None)]"
  obtain lg fs1 where n: "logger_New False ''warn'' False ''l'' Map.empty = (lg, fs1)" by fastforce
  obtain out' fs' where r: "log_run lg ?rs ([], fs1) = (out', fs')" by fastforce
  have "fs' = fs1" by (rule stdout_failure_silences_file [OF _ r]) simp
  moreover have "fs1 ''l'' = Some []" using n by (auto simp: logger_New_def)
  ultimately show ?thesis using n r by blast
qed

end
