(* ===== verification/Server.thy ===== *)
theory Server
  imports Resolver_Behaviour Rate_Limit Updater Config Logger
begin

text \<open>
  Command \<open>cmd/sentrydns\<close>: how \<open>main\<close> builds the components from the configuration, the handler of a
  DNS request, the schedule of the cleanup, and the shutdown. A handler that returns has written
  exactly one message, which is its result; \<^const>\<open>None\<close> means, as in the resolver, that the run the
  environment picks does not exist. The conversion of a floating-point number that does not fit a
  duration is up to the compiler: the argument \<open>conv\<close>. The listeners and the signal handling are not
  modelled, and the calls of the logger are left out: \<open>Logger\<close> says what they write.
\<close>

section \<open>Start\<close>

record server =
  sv_cfg :: Config
  sv_res :: resolver
  sv_limiter :: limiter
  sv_global :: globalLimiter
  sv_loopIPs :: "128 word list"
  sv_updater :: "updater option"
  sv_log :: logger

datatype start_error = StartConfig cfg_error | StartLogDir | StartClassifier cls_error | StartStore load_error

definition f64_duration :: "(f64 \<Rightarrow> int) \<Rightarrow> f64 \<Rightarrow> int" where
  "f64_duration conv x =
     (case x of
        Fin q \<Rightarrow> let d = q * 1000000000; n = (if 0 \<le> d then \<lfloor>d\<rfloor> else \<lceil>d\<rceil>)
                 in if - (2 ^ 63) \<le> n \<and> n < 2 ^ 63 then n else conv x
      | _ \<Rightarrow> conv x)"

definition with_cooldown :: "(int \<Rightarrow> resolver \<Rightarrow> resolver) \<Rightarrow> string \<Rightarrow> resolver \<Rightarrow> resolver" where
  "with_cooldown setter text r =
     (if text = [] then r else case ParseDuration text of Some d \<Rightarrow> setter d r | None \<Rightarrow> r)"

definition build_resolver ::
  "dns_lib \<Rightarrow> (f64 \<Rightarrow> int) \<Rightarrow> Config \<Rightarrow> classifier \<Rightarrow> store \<Rightarrow> metrics \<Rightarrow> resolver" where
  "build_resolver L conv cfg c s m =
     (let r0 = resolver_New c s (IranDNS cfg) (GlobalDNS cfg) (IranTLDs cfg) (HijackIPs cfg) (HijackRanges cfg)
                 (PreferIranDomains cfg) (of_int (MinTTL cfg)) (of_int (MaxTTL cfg)) m (GlobalDNSFallback cfg)
                 (CacheMaxEntries cfg) (IranCBThreshold cfg) (30 * second) (GlobalCBThreshold cfg) (30 * second);
          r1 = SetStaticRecords L (StaticRecords cfg) r0;
          r2 = with_cooldown SetCBCooldown (IranCBCooldown cfg) r1;
          r3 = with_cooldown SetGlobalCBCooldown (GlobalCBCooldown cfg) r2;
          r4 = SetTimeout (wrap64 (IranDNSTimeout cfg * second)) r3
      in SetGlobalTimeout (f64_duration conv (GlobalDNSTimeout cfg)) r4)"

definition loop_ips :: "Config \<Rightarrow> 128 word list" where
  "loop_ips cfg = (if LoopDetection cfg
     then List.map_filter ParseIP [IranDNS cfg, GlobalDNS cfg, GlobalDNSFallback cfg] else [])"

definition build_updater :: "Config \<Rightarrow> updater option" where
  "build_updater cfg =
     (if IranRangesURL cfg = [] then None
      else let interval = (case ParseDuration (IranRangesUpdateInterval cfg) of Some d \<Rightarrow> d | None \<Rightarrow> 24 * hour)
           in Some (updater_New (IranRangesURL cfg) (IranRanges cfg) interval (StateFile cfg)))"

text \<open>\<open>ensureLogDir\<close>: whether it returns an error; \<open>mk_fails\<close> is the outcome of \<open>os.MkdirAll\<close>.\<close>

definition ensureLogDir :: "bool \<Rightarrow> string \<Rightarrow> bool" where
  "ensureLogDir mk_fails logFile = (if logFile = [] then False else mk_fails)"

text \<open>\<open>main\<close> up to the start of the listeners, with the system calls that fail on the way: creating the
  log directory, opening the log file, reading the ranges or the learned domains.\<close>

record start_io =
  mkdir_fails :: bool
  log_open_fails :: bool
  ranges_read_fails :: bool
  learned_read_fails :: bool

definition start ::
  "dns_lib \<Rightarrow> (f64 \<Rightarrow> int) \<Rightarrow> (string \<Rightarrow> Config \<Rightarrow> decoded) \<Rightarrow> start_io \<Rightarrow> string \<Rightarrow> int \<Rightarrow> string \<Rightarrow> fs \<Rightarrow>
   start_error + server \<times> fs" where
  "start L conv decode sio cfgPath now today fs =
     (case config_Load decode cfgPath fs of
        (_, Some e) \<Rightarrow> Inl (StartConfig e)
      | (None, None) \<Rightarrow> Inl (StartConfig CfgOpen)
      | (Some cfg, None) \<Rightarrow>
         if ensureLogDir (mkdir_fails sio) (LogFile cfg) then Inl StartLogDir
         else let (lg, fs1) = logger_New (log_open_fails sio) (LogLevel cfg) (LogFormat cfg = ''json'') (LogFile cfg) fs
         in (case classifier_New (ranges_read_fails sio) (IranRanges cfg) fs1 of
            Inl e \<Rightarrow> Inl (StartClassifier e)
          | Inr c \<Rightarrow>
             (case store_New (learned_read_fails sio) (Learned cfg) True (StateFile cfg) fs1 of
                Inl e \<Rightarrow> Inl (StartStore e)
              | Inr s \<Rightarrow>
                 let m = RestoreFromFile (StateFile cfg) today fs1 (metrics_New now)
                 in Inr (\<lparr>sv_cfg = cfg, sv_res = build_resolver L conv cfg c s m,
                         sv_limiter = limiter_New (RateLimitPerClient cfg),
                         sv_global = NewGlobal now (GlobalQPSLimit cfg),
                         sv_loopIPs = loop_ips cfg, sv_updater = build_updater cfg, sv_log = lg\<rparr>, fs1))))"

section \<open>The handler\<close>

definition client_ip :: "string \<Rightarrow> string" where
  "client_ip remote = (case SplitHostPort remote of Some (h, _) \<Rightarrow> h | None \<Rightarrow> remote)"

definition looped :: "server \<Rightarrow> string \<Rightarrow> bool" where
  "looped sv ip \<longleftrightarrow> LoopDetection (sv_cfg sv)
     \<and> (case ParseIP ip of None \<Rightarrow> False | Some cip \<Rightarrow> cip \<in> set (sv_loopIPs sv))"

definition global_gate :: "env \<Rightarrow> server \<Rightarrow> bool \<times> server" where
  "global_gate E sv =
     (if GlobalQPSLimit (sv_cfg sv) > 0
      then let (ok, g) = global_Allow (e_clock E (tick (sv_res sv))) (sv_global sv)
           in (ok, sv\<lparr>sv_global := g, sv_res := tickup (sv_res sv)\<rparr>)
      else (True, sv))"

definition client_gate :: "env \<Rightarrow> string \<Rightarrow> server \<Rightarrow> bool \<times> server" where
  "client_gate E ip sv =
     (if RateLimitPerClient (sv_cfg sv) > 0
      then let (ok, l) = Allow (e_clock E (tick (sv_res sv))) ip (sv_limiter sv)
           in (ok, sv\<lparr>sv_limiter := l, sv_res := tickup (sv_res sv)\<rparr>)
      else (True, sv))"

definition count_res :: "counter \<Rightarrow> server \<Rightarrow> server" where
  "count_res c sv = sv\<lparr>sv_res := bump c 1 (sv_res sv)\<rparr>"

definition handle :: "env \<Rightarrow> string \<Rightarrow> msg option \<Rightarrow> msg \<Rightarrow> server \<Rightarrow> (msg \<times> server) option" where
  "handle E remote shared req sv =
     (if mQuestion req = [] then Some (ServerFail (e_lib E) (Some req), sv)
      else let ip = client_ip remote
      in if looped sv ip
         then Some (SetRcode (e_lib E) new_Msg req RcodeRefused, count_res LoopDetections sv)
      else let (ok1, sv1) = global_gate E sv
      in if \<not> ok1 then Some (ServerFail (e_lib E) (Some req), count_res QueriesGlobalLimited sv1)
      else let (ok2, sv2) = client_gate E ip sv1
      in if \<not> ok2 then Some (ServerFail (e_lib E) (Some req), count_res QueriesRateLimited sv2)
      else let deadline = e_clock E (tick (sv_res sv2)) + 10 * second
      in do {
           (v, r') \<leftarrow> Resolve E (Some deadline) shared (Some req) (tickup (sv_res sv2));
           Some (case v of Reply m \<Rightarrow> m | Panic \<Rightarrow> ServerFail (e_lib E) (Some req), sv2\<lparr>sv_res := r'\<rparr>)
         })"

section \<open>The cleanup schedule\<close>

definition parse_schedule :: "string \<Rightarrow> (int \<times> int) option" where
  "parse_schedule schedule =
     (if schedule = [] then None
      else case Split schedule COLON of
        [a, b] \<Rightarrow> (case Atoi a of None \<Rightarrow> None
          | Some h \<Rightarrow> if h < 0 \<or> h > 23 then None
              else case Atoi b of None \<Rightarrow> None
              | Some m \<Rightarrow> if m < 0 \<or> m > 59 then None else Some (h, m))
      | _ \<Rightarrow> None)"

text \<open>The pause until the next time of day \<open>h:m\<close>, at the time of day \<open>tod\<close>, on a day of 24 hours.\<close>

definition nextCleanup :: "int \<Rightarrow> int \<Rightarrow> int \<Rightarrow> int" where
  "nextCleanup h m tod =
     (let next = h * hour + m * minute; next' = (if \<not> next > tod then next + 24 * hour else next)
      in next' - tod)"

definition minCleanupDelay :: int where "minCleanupDelay = 5 * minute"

text \<open>The first pause and the function that gives the later ones.\<close>

definition cleanup_plan :: "Config \<Rightarrow> int \<Rightarrow> int \<times> (int \<Rightarrow> int) option" where
  "cleanup_plan cfg tod =
     (case parse_schedule (CleanupSchedule cfg) of
        Some (h, m) \<Rightarrow> (nextCleanup h m tod, Some (nextCleanup h m))
      | None \<Rightarrow>
         let d = (case ParseDuration (CleanupInitialDelay cfg) of Some x \<Rightarrow> x | None \<Rightarrow> hour)
         in (if d < minCleanupDelay then minCleanupDelay else d, None))"

section \<open>Shutdown\<close>

definition shutdown ::
  "write_io \<Rightarrow> string \<Rightarrow> string \<Rightarrow> server \<times> fs \<Rightarrow> server \<times> fs" where
  "shutdown io tmp date svf =
     (let (sv, fs) = svf; r = sv_res sv;
          r1 = resolver_Stop (r\<lparr>r_metrics := metrics_Stop (r_metrics r)\<rparr>);
          (s, m, fs1) = store_Stop io tmp date (r_store r1, r_metrics r1, fs)
      in (sv\<lparr>sv_res := r1\<lparr>r_store := s, r_metrics := m\<rparr>, sv_updater := map_option updater_Stop (sv_updater sv),
             sv_log := closer (sv_log sv), sv_limiter := limiter_Stop (sv_limiter sv)\<rparr>, fs1))"

section \<open>Lemmas\<close>

lemma start_fields:
  assumes "start L conv decode sio cfgPath now today fs = Inr (sv, fs1)"
  shows "\<exists>c s. sv_limiter sv = limiter_New (RateLimitPerClient (sv_cfg sv))
    \<and> sv_res sv = build_resolver L conv (sv_cfg sv) c s
        (RestoreFromFile (StateFile (sv_cfg sv)) today fs1 (metrics_New now))
    \<and> store_New (learned_read_fails sio) (Learned (sv_cfg sv)) True (StateFile (sv_cfg sv)) fs1 = Inr s"
  using assms by (auto simp: start_def Let_def split: prod.splits option.splits sum.splits if_splits intro!: exI)

lemma nextCleanup_range:
  assumes "0 \<le> h" "h \<le> 23" "0 \<le> m" "m \<le> 59" "0 \<le> tod" "tod < 24 * hour"
  shows "0 < nextCleanup h m tod \<and> nextCleanup h m tod \<le> 24 * hour
     \<and> (tod + nextCleanup h m tod) mod (24 * hour) = h * hour + m * minute"
proof -
  have "0 \<le> h * hour + m * minute" "h * hour + m * minute < 24 * hour" using assms by auto
  then show ?thesis using assms(5,6) by (auto simp: nextCleanup_def Let_def)
qed

text \<open>The resolver's state as the gates and refusals of the handler leave it.\<close>

definition gate_step :: "resolver \<Rightarrow> resolver \<Rightarrow> bool" where
  "gate_step r r' \<longleftrightarrow> same_config r r' \<and> r_cache r' = r_cache r \<and> r_store r' = r_store r
     \<and> r_active r' = r_active r \<and> r_stopped r' = r_stopped r \<and> tally r' = tally r
     \<and> cnt (r_metrics r') InFlightQueries = cnt (r_metrics r) InFlightQueries \<and> gauge_ok r' = gauge_ok r"

lemma gate_step_refl [simp]: "gate_step r r"
  by (simp add: gate_step_def)

lemma gate_step_tickup [simp]: "gate_step r (tickup s) = gate_step r s"
  by (simp add: gate_step_def tickup_def same_config_def tally_def gauge_ok_def)

lemma gate_step_bump:
  assumes "c \<in> {LoopDetections, QueriesGlobalLimited, QueriesRateLimited}" "gate_step r s"
  shows "gate_step r (bump c 1 s)"
proof -
  have "gate_step s (bump c 1 s)"
    using assms(1)
    by (elim insertE emptyE) (simp_all add: gate_step_def bump_def same_config_def tally_def gauge_ok_def counter_simps)
  then show ?thesis using assms(2) same_config_trans unfolding gate_step_def by metis
qed

lemma seen_tickup [simp]: "seen (tickup r) = seen r"
  by (simp add: seen_def tickup_def)

lemma seen_turned_away:
  "c \<in> {LoopDetections, QueriesGlobalLimited, QueriesRateLimited} \<Longrightarrow> seen (bump c 1 r) = seen r + 1"
  by (auto simp: seen_def bump_def counter_simps)

lemma global_gate_spec:
  "global_gate E sv = (ok, sv') \<Longrightarrow> gate_step r (sv_res sv) \<Longrightarrow> gate_step r (sv_res sv')
     \<and> sv_cfg sv' = sv_cfg sv \<and> sv_limiter sv' = sv_limiter sv \<and> sv_loopIPs sv' = sv_loopIPs sv
     \<and> seen (sv_res sv') = seen (sv_res sv)"
  by (auto simp: global_gate_def Let_def split: if_splits prod.splits)

lemma client_gate_spec:
  "client_gate E ip sv = (ok, sv') \<Longrightarrow> gate_step r (sv_res sv) \<Longrightarrow> gate_step r (sv_res sv')
     \<and> sv_cfg sv' = sv_cfg sv \<and> sv_loopIPs sv' = sv_loopIPs sv
     \<and> (limiter_inv (sv_limiter sv) \<longrightarrow> limiter_inv (sv_limiter sv'))
     \<and> seen (sv_res sv') = seen (sv_res sv)"
  using Allow_inv [of "sv_limiter sv" "e_clock E (tick (sv_res sv))" ip]
  by (auto simp: client_gate_def Let_def split: if_splits prod.splits)

text \<open>A request either ends at one of the gates, without a query and with SERVFAIL or REFUSED, or it
  is what \<open>Resolve\<close> makes of it under a deadline of ten seconds.\<close>

lemma handle_cases:
  assumes "handle E remote shared req sv = Some (m, sv')"
  obtains (gate) "gate_step (sv_res sv) (sv_res sv')"
      "m = ServerFail (e_lib E) (Some req) \<or> m = SetRcode (e_lib E) new_Msg req RcodeRefused"
      "limiter_inv (sv_limiter sv) \<longrightarrow> limiter_inv (sv_limiter sv')" "sv_cfg sv' = sv_cfg sv"
      "mQuestion req \<noteq> [] \<longrightarrow> seen (sv_res sv') = seen (sv_res sv) + 1"
      "mQuestion req = [] \<longrightarrow> seen (sv_res sv') = seen (sv_res sv)"
  | (resolved) r v r' ctx where "gate_step (sv_res sv) r" "Resolve E ctx shared (Some req) r = Some (v, r')"
      "m = (case v of Reply x \<Rightarrow> x | Panic \<Rightarrow> ServerFail (e_lib E) (Some req))" "sv_res sv' = r'"
      "limiter_inv (sv_limiter sv) \<longrightarrow> limiter_inv (sv_limiter sv')" "sv_cfg sv' = sv_cfg sv"
      "mQuestion req \<noteq> []" "seen r = seen (sv_res sv)"
proof (cases "mQuestion req = [] \<or> looped sv (client_ip remote)")
  case True
  then show ?thesis
    using assms gate gate_step_bump [of LoopDetections] seen_turned_away [of LoopDetections "sv_res sv"]
    by (auto simp: handle_def Let_def count_res_def split: if_splits)
next
  case False
  obtain ok1 sv1 where g1: "global_gate E sv = (ok1, sv1)" by fastforce
  note s1 = global_gate_spec [OF g1 gate_step_refl]
  obtain ok2 sv2 where g2: "client_gate E (client_ip remote) sv1 = (ok2, sv2)" by fastforce
  have s2: "gate_step (sv_res sv) (sv_res sv2)" "limiter_inv (sv_limiter sv) \<longrightarrow> limiter_inv (sv_limiter sv2)"
    "sv_cfg sv2 = sv_cfg sv" "seen (sv_res sv2) = seen (sv_res sv)"
    using client_gate_spec [OF g2] s1 by auto
  consider "\<not> ok1" | "ok1" "\<not> ok2" | "ok1" "ok2" by blast
  then show ?thesis
  proof cases
    case 1
    then show ?thesis
      using assms False g1 s1 gate gate_step_bump [of QueriesGlobalLimited]
        seen_turned_away [of QueriesGlobalLimited "sv_res sv1"]
      by (auto simp: handle_def Let_def count_res_def)
  next
    case 2
    then show ?thesis
      using assms False g1 g2 s2 gate gate_step_bump [of QueriesRateLimited]
        seen_turned_away [of QueriesRateLimited "sv_res sv2"]
      by (auto simp: handle_def Let_def count_res_def)
  next
    case 3
    let ?r = "tickup (sv_res sv2)"
    obtain v r' where "Resolve E (Some (e_clock E (tick (sv_res sv2)) + 10 * second)) shared (Some req) ?r = Some (v, r')"
      "m = (case v of Reply x \<Rightarrow> x | Panic \<Rightarrow> ServerFail (e_lib E) (Some req))" "sv' = sv2\<lparr>sv_res := r'\<rparr>"
      using assms False g1 g2 3 by (auto simp: handle_def Let_def bind_eq_Some_conv)
    then show ?thesis using resolved [of ?r] s2 False by simp
  qed
qed

lemma build_resolver_cache:
  "r_cache (build_resolver L conv cfg c s m)
     = cache_New (of_int (MinTTL cfg)) (of_int (MaxTTL cfg)) (CacheMaxEntries cfg)"
  by (simp add: build_resolver_def with_cooldown_def resolver_New_def SetStaticRecords_def SetCBCooldown_def
        SetGlobalCBCooldown_def SetTimeout_def SetGlobalTimeout_def Let_def split: option.splits)

text \<open>
  The limits of the cache hold for every validated configuration whose \<open>max_ttl\<close> fits into 32
  bits: the time for which the resolver that \<open>main\<close> builds keeps a response lies between
  \<open>min_ttl\<close> and \<open>max_ttl\<close> seconds, whatever TTL the response has.
\<close>

theorem valid_ttl_limits:
  assumes "Validate cfg = None" "MaxTTL cfg < 2 ^ 32" "k = r_cache (build_resolver L conv cfg c s m)"
  shows "MinTTL cfg \<le> uint (clamp_ttl (c_minTTL k) (c_maxTTL k) t)
       \<and> uint (clamp_ttl (c_minTTL k) (c_maxTTL k) t) \<le> MaxTTL cfg"
  using ttl_limits_fit [OF assms(1,2)] by (simp add: assms(3) build_resolver_cache cache_New_def)

lemma clamp_to_one: "clamp_ttl 300 1 t = 1"
proof -
  have "1 < (if t < 300 then 300 else t)" by (auto intro: less_le_trans [of 1 300])
  then show ?thesis by (simp add: clamp_ttl_def)
qed

text \<open>
  Without that bound they do not: \<open>uint32(cfg.MaxTTL)\<close> drops the upper bits, and the validation
  has no upper limit, so with a valid \<open>max_ttl\<close> of \<open>2 ^ 32 + 1\<close> seconds the resolver keeps every
  response for one second.
\<close>

theorem max_ttl_truncated:
  "\<exists>cfg. Validate cfg = None \<and> MinTTL cfg = 300 \<and> MaxTTL cfg = 2 ^ 32 + 1
     \<and> (\<forall>c s m t. let k = r_cache (build_resolver L conv cfg c s m) in clamp_ttl (c_minTTL k) (c_maxTTL k) t = 1)"
proof -
  let ?c = "defaultConfig\<lparr>IranDNS := ''5.5.5.5'', GlobalDNS := ''8.8.8.8'', MaxTTL := 2 ^ 32 + 1\<rparr>"
  have v: "Validate ?c = None" by (simp add: Validate_def defaultConfig_def f64_le_zero_def)
  have l: "MinTTL ?c = 300" "MaxTTL ?c = 2 ^ 32 + 1" by (simp_all add: defaultConfig_def)
  have w: "(of_int 300 :: 32 word) = 300" "(of_int (2 ^ 32 + 1) :: 32 word) = 1" by simp_all
  have "clamp_ttl (c_minTTL k) (c_maxTTL k) t = 1" if "k = r_cache (build_resolver L conv ?c c s m)" for k c s m t
    unfolding that build_resolver_cache cache_New_def cache.simps l w by (rule clamp_to_one)
  then show ?thesis using v l by (metis (no_types))
qed

text \<open>
  Whatever the schedule text says, the cleanup pauses are sane: a valid \<open>HH:MM\<close> gives a first
  pause of more than zero and at most 24 hours that ends at that time of day, and the same for every
  later pause; anything else falls back to the initial delay, at least five minutes.
\<close>

theorem cleanup_plan_sound:
  assumes "0 \<le> tod" "tod < 24 * hour"
  shows "case cleanup_plan cfg tod of
     (d, Some next) \<Rightarrow> \<exists>h m. parse_schedule (CleanupSchedule cfg) = Some (h, m) \<and> d = next tod
        \<and> 0 < next tod \<and> next tod \<le> 24 * hour \<and> (tod + next tod) mod (24 * hour) = h * hour + m * minute
   | (d, None) \<Rightarrow> minCleanupDelay \<le> d"
proof (cases "parse_schedule (CleanupSchedule cfg)")
  case None
  then show ?thesis by (simp add: cleanup_plan_def Let_def)
next
  case (Some hm)
  obtain h m where hm: "hm = (h, m)" by fastforce
  then have "0 \<le> h \<and> h \<le> 23 \<and> 0 \<le> m \<and> m \<le> 59"
    using Some by (auto simp: parse_schedule_def split: if_splits list.splits option.splits)
  then show ?thesis using nextCleanup_range [of h m tod] assms Some hm by (simp add: cleanup_plan_def)
qed

text \<open>
  A configuration can be valid and still crash the program: an update interval of zero passes the
  validation and parses, and \<open>time.NewTicker\<close> panics in the updater's goroutine, where nothing
  recovers.
\<close>

theorem zero_update_interval_panics:
  "\<exists>cfg u. Validate cfg = None \<and> build_updater cfg = Some u
     \<and> (\<forall>mtime now m. \<exists>d m'. updater_Start u mtime now m = (Plan d None, m'))"
proof -
  let ?c = "sample_config\<lparr>IranRangesUpdateInterval := ''0s''\<rparr>"
  have p: "ParseDuration ''0s'' = Some 0" by code_simp
  have "Validate ?c = Validate sample_config" by (simp add: Validate_def)
  then have "Validate ?c = None" using sample_config_valid by simp
  moreover have "build_updater ?c = Some (updater_New (IranRangesURL ?c) (IranRanges ?c) 0 (StateFile ?c))"
    using p by (simp add: build_updater_def sample_config_def defaultConfig_def)
  ultimately show ?thesis
    by (intro exI [of _ ?c]) (auto simp: updater_Start_def updater_New_def Let_def case_prod_unfold)
qed


section \<open>Witnesses\<close>

definition sample_server :: server where
  "sample_server = \<lparr>sv_cfg = sample_config, sv_res = sample_resolver, sv_limiter = limiter_New 0,
     sv_global = NewGlobal 0 0, sv_loopIPs = loop_ips sample_config, sv_updater = None,
     sv_log = \<lparr>lg_level = LevelInfo, lg_json = True, lg_file = None\<rparr>\<rparr>"

theorem cleanup_plan_sound_witness:
  "0 < fst (cleanup_plan sample_config 0)"
proof -
  have p: "parse_schedule ''02:00'' = Some (2, 0)" by code_simp
  have c: "CleanupSchedule sample_config = ''02:00''" by (simp add: sample_config_def defaultConfig_def)
  show ?thesis
    using cleanup_plan_sound [of 0 sample_config] p c by (simp add: cleanup_plan_def)
qed


theorem valid_ttl_limits_witness:
  "MinTTL sample_config = 300 \<and> MaxTTL sample_config = 3600
   \<and> (let k = r_cache (build_resolver sample_lib (\<lambda>_. 0) sample_config sample_classifier (empty_store ''f'' True []) (metrics_New 0))
      in uint (clamp_ttl (c_minTTL k) (c_maxTTL k) 60) \<le> 3600)"
  using valid_ttl_limits [OF sample_config_valid _ refl, where t = 60] by (simp add: sample_config_def defaultConfig_def Let_def)

end
