(* ===== verification/System.thy ===== *)
theory System
  imports Server
begin

text \<open>
  The running program: the server that \<open>main\<close> builds, the file system, the results of finished
  flights that \<open>singleflight\<close> still hands to waiting callers, and the log of requests and the messages
  written for them. A step is one request (the whole handler), one flight run for the callers that
  wait for it, one goroutine left behind by \<open>resolveWithLearning\<close>, one tick of a background loop (the
  sweeps of cache and limiter, the flusher, the delayed rewrite, the delayed save of the state, the
  cleanup of the learned domains, an update of the ranges, the reset at midnight). Steps follow each
  other in any order; within a step nothing else runs, so the interleavings inside a step are the
  business of \<open>Circuit_Breaker\<close>, \<open>Store_Persist\<close> and \<open>Resolver_Learning\<close>.
\<close>

record sys =
  sys_sv :: server
  sys_fs :: fs
  sys_flights :: "(msg \<times> msg) list"
  sys_log :: "(msg \<times> msg) list"

abbreviation sys_res :: "sys \<Rightarrow> resolver" where
  "sys_res s \<equiv> sv_res (sys_sv s)"

definition set_res :: "resolver \<Rightarrow> sys \<Rightarrow> sys" where
  "set_res r s = s\<lparr>sys_sv := (sys_sv s)\<lparr>sv_res := r\<rparr>\<rparr>"

text \<open>A caller that does not lead its flight gets the result of a flight with the same key.\<close>

definition may_share :: "dns_lib \<Rightarrow> msg option \<Rightarrow> msg \<Rightarrow> sys \<Rightarrow> bool" where
  "may_share L shared req s \<longleftrightarrow> (case shared of None \<Rightarrow> True
     | Some v \<Rightarrow> list_ex (\<lambda>(q, w). w = v \<and> mQuestion q \<noteq> [] \<and> makeKey L (Some q) = makeKey L (Some req)) (sys_flights s))"

inductive sys_step :: "env \<Rightarrow> sys \<Rightarrow> sys \<Rightarrow> bool" for E :: env where
  request: "handle E remote shared req (sys_sv s) = Some (m, sv') \<Longrightarrow> may_share (e_lib E) shared req s \<Longrightarrow>
    sys_step E s (s\<lparr>sys_sv := sv', sys_log := (req, m) # sys_log s\<rparr>)"
| lead: "mQuestion req = q # qs \<Longrightarrow> flight E ctx req (qName q) (sys_res s) = Some (Some v, r') \<Longrightarrow>
    sys_step E s ((set_res r' s)\<lparr>sys_flights := (req, v) # sys_flights s\<rparr>)"
| goroutine: "pending (sys_res s) = xs @ p # ys \<Longrightarrow>
    sys_step E s (set_res (run_launched E p ((sys_res s)\<lparr>pending := xs @ ys\<rparr>)) s)"
| cache_sweep: "sys_step E s (set_res ((sys_res s)\<lparr>r_cache := cache_cleanup now (r_cache (sys_res s))\<rparr>) s)"
| limiter_sweep: "sys_step E s (s\<lparr>sys_sv := (sys_sv s)\<lparr>sv_limiter := limiter_cleanup now (sv_limiter (sys_sv s))\<rparr>\<rparr>)"
| flush: "flushPersist ap (r_store (sys_res s), sys_fs s) = (st, fs') \<Longrightarrow>
    sys_step E s ((set_res ((sys_res s)\<lparr>r_store := st\<rparr>) s)\<lparr>sys_fs := fs'\<rparr>)"
| rewrite: "rewriteTimer (r_store (sys_res s)) \<Longrightarrow>
    writeAll io ord tmp ((r_store (sys_res s))\<lparr>rewriteTimer := False\<rparr>, sys_fs s) = (st, fs') \<Longrightarrow>
    sys_step E s ((set_res ((sys_res s)\<lparr>r_store := st\<rparr>) s)\<lparr>sys_fs := fs'\<rparr>)"
| save_state: "flushTimer (r_store (sys_res s)) \<Longrightarrow>
    flushState io tmp ((r_store (sys_res s))\<lparr>flushTimer := False\<rparr>, sys_fs s) = (st, fs') \<Longrightarrow>
    sys_step E s ((set_res ((sys_res s)\<lparr>r_store := st\<rparr>) s)\<lparr>sys_fs := fs'\<rparr>)"
| cleanup: "ce_mid ce = id \<Longrightarrow>
    store_cleanup ce (r_store (sys_res s), r_metrics (sys_res s), sys_fs s) = (st, m', fs') \<Longrightarrow>
    sys_step E s ((set_res ((sys_res s)\<lparr>r_store := st, r_metrics := m'\<rparr>) s)\<lparr>sys_fs := fs'\<rparr>)"
| ranges_update: "sv_updater (sys_sv s) = Some u \<Longrightarrow>
    update io tmp rf sio stmp now unix http u (r_classifier (sys_res s), r_metrics (sys_res s), sys_fs s) = (c', m', fs') \<Longrightarrow>
    sys_step E s ((set_res ((sys_res s)\<lparr>r_classifier := c', r_metrics := m'\<rparr>) s)\<lparr>sys_fs := fs'\<rparr>)"
| midnight: "midnight_reset io tmp today (r_metrics (sys_res s), sys_fs s) = (m', fs') \<Longrightarrow>
    sys_step E s ((set_res ((sys_res s)\<lparr>r_metrics := m'\<rparr>) s)\<lparr>sys_fs := fs'\<rparr>)"

text \<open>The program has started and not yet answered anything.\<close>

definition sys_start :: "env \<Rightarrow> sys \<Rightarrow> bool" where
  "sys_start E s \<longleftrightarrow> sys_flights s = [] \<and> sys_log s = []
     \<and> (\<exists>conv decode sio cfgPath now today fs.
          start (e_lib E) conv decode sio cfgPath now today fs = Inr (sys_sv s, sys_fs s))"

section \<open>What the steps keep\<close>

definition cache_ok :: "int \<Rightarrow> cache \<Rightarrow> bool" where
  "cache_ok n c \<longleftrightarrow> cache_inv c \<and> c_maxEntries c = n"

lemma cache_ok_Get: "cache_ok n c \<Longrightarrow> cache_ok n (snd (cache_Get L t t2 q c))"
  using cache_Get_inv [of c L t t2 q] by (auto simp: cache_ok_def cache_Get_def Let_def split: option.splits)

lemma cache_ok_Set:
  "cache_ok n c \<Longrightarrow> iter_order ord \<Longrightarrow> mQuestion q \<noteq> [] \<Longrightarrow> cache_ok n (cache_Set L ord now (Some q) (Some r) c)"
  using cache_Set_inv [of c ord q L now r] by (auto simp: cache_ok_def cache_Set_def Let_def)

lemma flight_end_cache_ok:
  assumes "flight_end E req resp r = (m, r')" "cache_ok n (r_cache r)" "iter_order (e_order E)" "mQuestion req \<noteq> []"
  shows "cache_ok n (r_cache r')"
  using assms(1,2) cache_ok_Set [OF assms(2-4)]
  by (auto simp: flight_end_def bump_def split: option.splits if_splits)

lemma flight_cases:
  assumes "flight E ctx req d r = Some (v, r')"
  obtains (panic) x s where "resolve E ctx req d r = Some (x, s)" "r' = tickup (bump QueriesRetried 1 s)"
  | (ended) r0 x s m where "r_cache r0 = r_cache r" "resolve E ctx req d r0 = Some (x, s)" "flight_end E req x s = (m, r')"
proof -
  obtain x s where x: "resolve E ctx req d r = Some (x, s)"
    using assms by (auto simp: flight_def bind_eq_Some_conv)
  have s: "r_cache s = r_cache r" using resolve_spec [OF x] by (simp add: path_step_def)
  let ?s = "bump QueriesRetried 1 s"
  have t: "r_cache (tickup ?s) = r_cache r" using s by (simp add: bump_def)
  show ?thesis
  proof (cases "failed x \<and> retry_jitter (e_rand E (tick ?s)) (r_timeout ?s) = None")
    case True
    then show ?thesis using panic [OF x] assms x by (auto simp: flight_def Let_def)
  next
    case False
    show ?thesis
    proof (cases "failed x")
      case True
      then obtain y u where "resolve E ctx req d (tickup ?s) = Some (y, u)" "snd (flight_end E req y u) = r'"
        using assms x False by (auto simp: flight_def Let_def bind_eq_Some_conv case_prod_unfold)
      then show ?thesis using ended [OF t] by (metis prod.collapse)
    next
      case False
      then have "snd (flight_end E req x s) = r'" using assms x by (auto simp: flight_def Let_def case_prod_unfold)
      then show ?thesis using ended [OF refl x] by (metis prod.collapse)
    qed
  qed
qed

lemma resolve_cache: "resolve E ctx req d s = Some (x, s') \<Longrightarrow> r_cache s' = r_cache s"
  using resolve_spec [of E ctx req d s x s'] by (simp add: path_step_def)

lemma flight_cache_ok:
  assumes "flight E ctx req d r = Some (v, r')" "cache_ok n (r_cache r)" "iter_order (e_order E)" "mQuestion req \<noteq> []"
  shows "cache_ok n (r_cache r')"
  using assms(1)
proof (cases rule: flight_cases)
  case panic
  then show ?thesis using assms(2) by (simp add: bump_def resolve_cache)
next
  case (ended r0 x s m)
  then show ?thesis using flight_end_cache_ok [OF ended(3) _ assms(3,4)] assms(2) by (simp add: resolve_cache)
qed

lemma Resolve_cache_ok:
  assumes "Resolve E ctx shared (Some req) r = Some (v, r')" "cache_ok n (r_cache r)" "iter_order (e_order E)"
  shows "cache_ok n (r_cache r')"
proof (cases "r_stopped r \<or> mQuestion req = []")
  case True
  then show ?thesis using assms by (auto simp: Resolve_def enter_def exit_call_def bump_def split: if_splits)
next
  case False
  then obtain q qs s where q: "mQuestion req = q # qs" and b: "Resolve_body E ctx shared req q (enter r) = Some (v, s)"
    and r': "r_cache r' = r_cache s"
    using assms(1) by (cases "mQuestion req") (auto simp: Resolve_def bind_eq_Some_conv exit_call_def bump_def)
  have r1: "cache_ok n (r_cache (enter r))" using assms(2) by (simp add: enter_def bump_def)
  from b have "cache_ok n (r_cache s)"
  proof (cases rule: Resolve_body_cases)
    case static
    then show ?thesis using r1 by (simp add: bump_def)
  next
    case (hit m c)
    then show ?thesis using cache_ok_Get [OF r1] by (simp add: bump_def) (metis snd_conv)
  next
    case (miss c)
    let ?r = "bump CacheMiss 1 (looked_up c (enter r))"
    have c: "cache_ok n (r_cache ?r)" using cache_ok_Get [OF r1] miss(1) by (simp add: bump_def) (metis snd_conv)
    consider "s = ?r" | w where "flight E ctx req (qName q) ?r = Some (w, s)"
      using miss(2) by (auto simp: Resolve_miss_def Let_def bind_eq_Some_conv split: option.splits)
    then show ?thesis using c q flight_cache_ok [OF _ c assms(3)] by cases auto
  qed
  then show ?thesis using r' by simp
qed

section \<open>The invariant\<close>

text \<open>What may have been written for a request: the identifier is the request's, and an address query
  got REFUSED or SERVFAIL without records, the pinned record, or an answer that may be given.\<close>

definition written_ok :: "env \<Rightarrow> resolver \<Rightarrow> msg \<Rightarrow> msg \<Rightarrow> bool" where
  "written_ok E r req m \<longleftrightarrow> mId m = mId req
     \<and> (\<forall>q qs. mQuestion req = q # qs \<longrightarrow> address_type (qType q) \<longrightarrow>
          (mRcode m = RcodeRefused \<and> mAnswer m = []) \<or> reply_ok E r req q m)"

definition questions :: "(msg \<times> msg) list \<Rightarrow> int" where
  "questions w = int (length (filter (\<lambda>(req, m). mQuestion req \<noteq> []) w))"

definition sys_inv :: "env \<Rightarrow> sys \<Rightarrow> bool" where
  "sys_inv E s \<longleftrightarrow> cache_safe E (sys_res s) \<and> cache_ok (CacheMaxEntries (sv_cfg (sys_sv s))) (r_cache (sys_res s))
     \<and> gauge_ok (sys_res s) \<and> tally (sys_res s) = 0 \<and> seen (sys_res s) = questions (sys_log s)
     \<and> r_active (sys_res s) = 0 \<and> cnt (r_metrics (sys_res s)) InFlightQueries = 0 \<and> \<not> r_stopped (sys_res s)
     \<and> limiter_inv (sv_limiter (sys_sv s)) \<and> store_inv (r_store (sys_res s))
     \<and> (\<forall>(q, v) \<in> set (sys_flights s). flight_ok E (sys_res s) q v)
     \<and> (\<forall>(req, m) \<in> set (sys_log s). written_ok E (sys_res s) req m)"

text \<open>A change of the resolver that leaves alone what the invariant says of it, apart from the cache.\<close>

definition quiet :: "env \<Rightarrow> resolver \<Rightarrow> resolver \<Rightarrow> bool" where
  "quiet E r r' \<longleftrightarrow> good E r' = good E r \<and> staticRecords r' = staticRecords r \<and> r_active r' = r_active r
     \<and> r_stopped r' = r_stopped r \<and> tally r' = tally r
     \<and> cnt (r_metrics r') InFlightQueries = cnt (r_metrics r) InFlightQueries \<and> (gauge_ok r \<longrightarrow> gauge_ok r')
     \<and> (store_inv (r_store r) \<longrightarrow> store_inv (r_store r'))"

lemma quiet_trans: "quiet E r s \<Longrightarrow> quiet E s t \<Longrightarrow> quiet E r t"
  by (simp add: quiet_def)

lemma quiet_flight_ok: "quiet E r r' \<Longrightarrow> flight_ok E r' = flight_ok E r"
  by (simp add: quiet_def flight_ok_def fun_eq_iff)

lemma quiet_written_ok: "quiet E r r' \<Longrightarrow> written_ok E r' = written_ok E r"
  by (simp add: quiet_def written_ok_def reply_ok_def staticLookup_def fun_eq_iff)

lemma quiet_cache_safe: "quiet E r r' \<Longrightarrow> r_cache r' = r_cache r \<Longrightarrow> cache_safe E r' = cache_safe E r"
  by (simp add: quiet_def cache_safe_def safe_entry_def)

lemma quiet_call: "call_step r r' \<Longrightarrow> quiet E r r'"
  using good_config [of r r' E] by (simp add: quiet_def call_step_def same_config_def)

lemma quiet_gate: "gate_step r r' \<Longrightarrow> quiet E r r'"
  using good_config [of r r' E] by (simp add: quiet_def gate_step_def same_config_def)

lemma quiet_net: "net_step r r' \<Longrightarrow> quiet E r r' \<and> seen r' = seen r"
  using good_config [of r r' E] by (simp add: quiet_def net_step_def same_config_def tally_def seen_def)

text \<open>Changes of the store, of the classifier, and of counters that no request touches.\<close>

lemma ip_hijacked_background [simp]:
  "ip_hijacked (r\<lparr>r_store := st, r_classifier := k, r_metrics := m\<rparr>) = ip_hijacked r"
  by (simp add: ip_hijacked_def fun_eq_iff split: option.split)

lemma quiet_background:
  assumes "\<And>c. c \<notin> {StoreCleaned, LearnedTotalAtMidnight} \<Longrightarrow> cnt m c = cnt (r_metrics r) c"
    and "store_inv (r_store r) \<Longrightarrow> store_inv st"
  shows "quiet E r (r\<lparr>r_store := st, r_classifier := k, r_metrics := m\<rparr>)
       \<and> seen (r\<lparr>r_store := st, r_classifier := k, r_metrics := m\<rparr>) = seen r"
  using assms
  by (simp add: quiet_def good_def from_global_def from_iran_def upstream_addr_def isHijacked_def ip_hijacked_def
      tally_def seen_def gauge_ok_def fun_eq_iff)

text \<open>The invariant after a step that answers no request.\<close>

lemma sys_inv_quiet:
  assumes "sys_inv E s" "quiet E (sys_res s) r'" "seen r' = seen (sys_res s)" "r_cache r' = r_cache (sys_res s)"
  shows "sys_inv E ((set_res r' s)\<lparr>sys_fs := fs'\<rparr>)"
  using assms quiet_cache_safe [OF assms(2,4)] quiet_flight_ok [OF assms(2)] quiet_written_ok [OF assms(2)]
  by (simp add: sys_inv_def set_res_def quiet_def)

lemma share_ok:
  assumes "may_share (e_lib E) (Some v) req s" "sys_inv E s" "lib_types_ok (e_lib E)" "mQuestion req \<noteq> []"
  shows "flight_ok E (sys_res s) req v"
proof -
  obtain q where q: "(q, v) \<in> set (sys_flights s)" "mQuestion q \<noteq> []" "makeKey (e_lib E) (Some req) = makeKey (e_lib E) (Some q)"
    using assms(1) by (auto simp: may_share_def list_ex_iff)
  then have "flight_ok E (sys_res s) q v" using assms(2) by (auto simp: sys_inv_def)
  then show ?thesis using makeKey_type [OF assms(3) q(3) assms(4) q(2)] by (auto simp: flight_ok_def)
qed

text \<open>What a message written by one of the gates looks like.\<close>

lemma gate_written_ok:
  assumes "lib_reply_ok (e_lib E)" "lib_rcode_ok (e_lib E)"
    and "m = ServerFail (e_lib E) (Some req) \<or> m = SetRcode (e_lib E) new_Msg req RcodeRefused"
  shows "written_ok E r req m"
  using assms(3)
proof
  assume "m = ServerFail (e_lib E) (Some req)"
  then show ?thesis using ServerFail_reply [OF assms(1), of req] by (simp add: written_ok_def reply_ok_def ServerFail_def)
next
  assume "m = SetRcode (e_lib E) new_Msg req RcodeRefused"
  then show ?thesis using assms(2) by (simp add: written_ok_def lib_rcode_ok_def new_Msg_def)
qed

lemma questions_Cons: "questions ((req, m) # w) = questions w + (if mQuestion req \<noteq> [] then 1 else 0)"
  by (simp add: questions_def)

lemma sys_inv_answer:
  assumes "sys_inv E s" "quiet E (sys_res s) (sv_res sv')" "cache_safe E (sv_res sv')"
    and "cache_ok (CacheMaxEntries (sv_cfg (sys_sv s))) (r_cache (sv_res sv'))" "sv_cfg sv' = sv_cfg (sys_sv s)"
    and "limiter_inv (sv_limiter sv')" "written_ok E (sys_res s) req m"
    and "seen (sv_res sv') = questions ((req, m) # sys_log s)"
  shows "sys_inv E (s\<lparr>sys_sv := sv', sys_log := (req, m) # sys_log s\<rparr>)"
  using assms quiet_flight_ok [OF assms(2)] quiet_written_ok [OF assms(2)]
  by (simp add: sys_inv_def quiet_def)

lemma request_inv:
  assumes "sys_inv E s" "handle E remote shared req (sys_sv s) = Some (m, sv')" "may_share (e_lib E) shared req s"
    and L: "lib_types_ok (e_lib E)" "lib_reply_ok (e_lib E)" "lib_rcode_ok (e_lib E)" "iter_order (e_order E)"
  shows "sys_inv E (s\<lparr>sys_sv := sv', sys_log := (req, m) # sys_log s\<rparr>)"
  using assms(2)
proof (cases rule: handle_cases)
  case gate
  note q = quiet_gate [OF gate(1), of E]
  have c: "r_cache (sv_res sv') = r_cache (sys_res s)" using gate(1) by (simp add: gate_step_def)
  have n: "seen (sv_res sv') = questions ((req, m) # sys_log s)"
    using gate(5,6) assms(1) by (auto simp: questions_Cons sys_inv_def)
  show ?thesis
    using assms(1) gate(3,4) quiet_cache_safe [OF q c] c gate_written_ok [OF L(2,3) gate(2), of "sys_res s"]
    by (intro sys_inv_answer q n) (simp_all add: sys_inv_def)
next
  case (resolved r v r' ctx)
  note q0 = quiet_gate [OF resolved(1), of E]
  have c: "r_cache r = r_cache (sys_res s)" using resolved(1) by (simp add: gate_step_def)
  have cs: "cache_safe E r" using quiet_cache_safe [OF q0 c] assms(1) by (simp add: sys_inv_def)
  have sh: "flight_ok E r req x" if "shared = Some x" for x
    using share_ok [of E x req s] assms(1,3) that L(1) resolved(7) quiet_flight_ok [OF q0] by simp
  note sp = Resolve_spec [OF resolved(2) cs L(1,2) sh]
  have q: "quiet E (sys_res s) r'" using quiet_trans [OF q0 quiet_call] sp by blast
  have st: "\<not> r_stopped r" using q0 assms(1) by (simp add: quiet_def sys_inv_def)
  have n: "seen r' = questions ((req, m) # sys_log s)"
    using sp st resolved(7,8) assms(1) by (simp add: questions_Cons sys_inv_def)
  have k: "cache_ok (CacheMaxEntries (sv_cfg (sys_sv s))) (r_cache r')"
    using Resolve_cache_ok [OF resolved(2) _ L(4)] assms(1) c by (simp add: sys_inv_def)
  have ro: "reply_ok E r = reply_ok E (sys_res s)"
    using q0 by (simp add: fun_eq_iff quiet_def reply_ok_def staticLookup_def)
  have w: "written_ok E (sys_res s) req m"
  proof (cases v)
    case (Reply x)
    then show ?thesis using sp resolved(3) unfolding written_ok_def ro by simp
  next
    case Panic
    then show ?thesis using gate_written_ok [OF L(2,3)] resolved(3) by simp
  qed
  show ?thesis
    using assms(1) resolved(4-6) sp q k w n by (intro sys_inv_answer) (simp_all add: sys_inv_def)
qed

lemma lead_inv:
  assumes "sys_inv E s" "mQuestion req = q # qs" "flight E ctx req (qName q) (sys_res s) = Some (Some v, r')"
    and L: "lib_types_ok (e_lib E)" "lib_reply_ok (e_lib E)" "iter_order (e_order E)"
  shows "sys_inv E ((set_res r' s)\<lparr>sys_flights := (req, v) # sys_flights s\<rparr>)"
proof -
  have cs: "cache_safe E (sys_res s)" and k: "cache_ok (CacheMaxEntries (sv_cfg (sys_sv s))) (r_cache (sys_res s))"
    using assms(1) by (simp_all add: sys_inv_def)
  note sp = flight_spec [OF assms(3) cs L(1) _ L(2)]
  have f: "cache_safe E r'" "flight_ok E (sys_res s) req v" "call_step (sys_res s) r' \<and> seen r' = seen (sys_res s)"
    using sp assms(2) flight_step_call by auto
  have q: "quiet E (sys_res s) r'" using f(3) quiet_call by blast
  have "cache_ok (CacheMaxEntries (sv_cfg (sys_sv s))) (r_cache r')"
    using flight_cache_ok [OF assms(3) k L(3)] assms(2) by simp
  then show ?thesis
    using assms(1) f q quiet_flight_ok [OF q] quiet_written_ok [OF q] by (simp add: sys_inv_def set_res_def quiet_def)
qed

lemma run_launched_net: "net_step r (run_launched E p r)"
  using queryIranDNS_spec query_spec
  by (auto simp: run_launched_def split: launched.splits) (metis prod.collapse)+

lemma update_counters: "update io tmp rf sio stmp now unix http u (c, m, fs) = (c', m', fs') \<Longrightarrow> cnt m' = cnt m"
  by (auto simp: update_def setUpdateSuccess_def Let_def split: http.splits if_splits prod.splits option.splits)

lemma midnight_counters:
  "midnight_reset io tmp today (m, fs) = (m', fs') \<Longrightarrow> c \<noteq> LearnedTotalAtMidnight \<Longrightarrow> cnt m' c = cnt m c"
  by (auto simp: midnight_reset_def Let_def counter_simps)

lemma cleanup_counters:
  assumes "store_cleanup ce (st, m, fs) = (st', m', fs')" "ce_mid ce = id" "c \<noteq> StoreCleaned"
  shows "cnt m' c = cnt m c"
proof -
  have "cnt (snd (cleanup_remove rs (s, m))) c = cnt m c" for rs s
    using assms(3) by (simp add: cleanup_remove_def counter_simps split: prod.splits)
  then show ?thesis
    using assms(1,2) by (auto simp: store_cleanup_def Let_def split: if_splits prod.splits) (metis snd_conv)+
qed

lemma background_inv:
  assumes "sys_inv E s" "\<And>c. c \<notin> {StoreCleaned, LearnedTotalAtMidnight} \<Longrightarrow> cnt m c = cnt (r_metrics (sys_res s)) c"
    and "store_inv (r_store (sys_res s)) \<Longrightarrow> store_inv st"
  shows "sys_inv E ((set_res ((sys_res s)\<lparr>r_store := st, r_classifier := k, r_metrics := m\<rparr>) s)\<lparr>sys_fs := fs'\<rparr>)"
  using quiet_background [where m = m and r = "sys_res s" and E = E and st = st and k = k] assms by (intro sys_inv_quiet) simp_all

lemma background_inv_parts:
  assumes "sys_inv E s"
  shows "(store_inv (r_store (sys_res s)) \<Longrightarrow> store_inv st) \<Longrightarrow>
      sys_inv E ((set_res ((sys_res s)\<lparr>r_store := st\<rparr>) s)\<lparr>sys_fs := fs'\<rparr>)"
    and "(\<And>c. c \<notin> {StoreCleaned, LearnedTotalAtMidnight} \<Longrightarrow> cnt m c = cnt (r_metrics (sys_res s)) c) \<Longrightarrow>
      sys_inv E ((set_res ((sys_res s)\<lparr>r_metrics := m\<rparr>) s)\<lparr>sys_fs := fs'\<rparr>)"
    and "(store_inv (r_store (sys_res s)) \<Longrightarrow> store_inv st) \<Longrightarrow>
      (\<And>c. c \<notin> {StoreCleaned, LearnedTotalAtMidnight} \<Longrightarrow> cnt m c = cnt (r_metrics (sys_res s)) c) \<Longrightarrow>
      sys_inv E ((set_res ((sys_res s)\<lparr>r_store := st, r_metrics := m\<rparr>) s)\<lparr>sys_fs := fs'\<rparr>)"
    and "(\<And>c. c \<notin> {StoreCleaned, LearnedTotalAtMidnight} \<Longrightarrow> cnt m c = cnt (r_metrics (sys_res s)) c) \<Longrightarrow>
      sys_inv E ((set_res ((sys_res s)\<lparr>r_classifier := k, r_metrics := m\<rparr>) s)\<lparr>sys_fs := fs'\<rparr>)"
  using background_inv [OF assms, where m = "r_metrics (sys_res s)" and st = st and k = "r_classifier (sys_res s)" and fs' = fs']
    background_inv [OF assms, where m = m and st = "r_store (sys_res s)" and k = "r_classifier (sys_res s)" and fs' = fs']
    background_inv [OF assms, where m = m and st = st and k = "r_classifier (sys_res s)" and fs' = fs']
    background_inv [OF assms, where m = m and st = "r_store (sys_res s)" and k = k and fs' = fs']
  by simp_all

text \<open>The background loops of the store.\<close>

lemma delete_all_distinct: "delete_all rs ds n = (ds', k) \<Longrightarrow> distinct ds \<Longrightarrow> distinct ds'"
  by (induction rs ds n rule: delete_all.induct) (auto split: if_splits)

lemma flushPersist_store: "flushPersist ap (s, fs) = (s', fs') \<Longrightarrow> store_inv s' = store_inv s"
  by (auto simp: flushPersist_def flush_drain_def store_inv_def Let_def split: if_splits option.splits prod.splits)

lemma writeAll_store: "writeAll io ord tmp (s, fs) = (s', fs') \<Longrightarrow> store_inv s' = store_inv s"
  by (auto simp: writeAll_def store_inv_def Let_def)

lemma flushState_store: "flushState io tmp (s, fs) = (s', fs') \<Longrightarrow> store_inv s' = store_inv s"
  by (auto simp: flushState_def store_inv_def split: option.splits)

lemma cleanup_store:
  assumes "store_cleanup ce (st, m, fs) = (st', m', fs')" "ce_mid ce = id" "store_inv st"
  shows "store_inv st'"
proof -
  have r: "store_inv (fst (cleanup_remove rs (s, m)))" if "store_inv s" for rs s m
    using that delete_all_distinct by (auto simp: cleanup_remove_def store_inv_def split: prod.splits)
  show ?thesis
    using assms(1,2) r [OF assms(3)] assms(3) writeAll_store
    by (auto simp: store_cleanup_def Let_def store_inv_def split: if_splits prod.splits) (metis fst_conv)+
qed

lemmas store_loops = flushPersist_store writeAll_store flushState_store

lemma cache_sweep_inv:
  assumes "sys_inv E s"
  shows "sys_inv E (set_res ((sys_res s)\<lparr>r_cache := cache_cleanup now (r_cache (sys_res s))\<rparr>) s)"
proof -
  let ?r = "(sys_res s)\<lparr>r_cache := cache_cleanup now (r_cache (sys_res s))\<rparr>"
  have sc: "same_config (sys_res s) ?r" by (simp add: same_config_def)
  have "cache_safe E ?r"
    using assms rc.holds_tidy [of "safe_entry E (sys_res s)" "r_cache (sys_res s)" now]
    by (simp add: cache_safe_holds safe_entry_config [OF sc] sys_inv_def)
  moreover have "cache_ok n (cache_cleanup now c)" if "cache_ok n c" for n c
    using that cache_cleanup_inv by (simp add: cache_ok_def) (simp add: cache_cleanup_def)
  moreover have "quiet E (sys_res s) ?r"
    using good_config [OF sc] by (simp add: quiet_def tally_def gauge_ok_def)
  moreover from this have "flight_ok E ?r = flight_ok E (sys_res s)" "written_ok E ?r = written_ok E (sys_res s)"
    by (rule quiet_flight_ok, rule quiet_written_ok)
  ultimately show ?thesis
    using assms by (simp add: sys_inv_def set_res_def quiet_def seen_def)
qed

lemma sys_step_inv:
  assumes "sys_inv E s" "sys_step E s t" "lib_types_ok (e_lib E)" "lib_reply_ok (e_lib E)" "lib_rcode_ok (e_lib E)"
    and "iter_order (e_order E)"
  shows "sys_inv E t"
  using assms(2)
proof cases
  case (request remote shared req m sv')
  then show ?thesis using request_inv [OF assms(1)] assms(3-6) by blast
next
  case (lead req q qs ctx v r')
  then show ?thesis using lead_inv [OF assms(1)] assms(3,4,6) by blast
next
  case (goroutine xs p ys)
  let ?r = "(sys_res s)\<lparr>pending := xs @ ys\<rparr>"
  have "quiet E (sys_res s) ?r" "seen ?r = seen (sys_res s)"
    using good_config [of "sys_res s" ?r E] by (simp_all add: quiet_def tally_def seen_def gauge_ok_def same_config_def)
  moreover have n: "net_step ?r (run_launched E p ?r)" by (rule run_launched_net)
  moreover have "r_cache (run_launched E p ?r) = r_cache (sys_res s)" using n by (simp add: net_step_def)
  ultimately show ?thesis
    using goroutine sys_inv_quiet [OF assms(1), of "run_launched E p ?r" "sys_fs s"] quiet_net [OF n, of E] quiet_trans
    by (simp add: set_res_def)
next
  case (limiter_sweep now)
  then show ?thesis using assms(1) limiter_cleanup_inv by (simp add: sys_inv_def)
next
  case (cleanup ce st m' fs')
  then show ?thesis using background_inv_parts(3) [OF assms(1)] cleanup_counters cleanup_store by simp
next
  case (ranges_update u io tmp rf sio stmp now unix http c' m' fs')
  then show ?thesis using background_inv_parts(4) [OF assms(1)] update_counters by simp
next
  case (midnight io tmp today m' fs')
  then show ?thesis using background_inv_parts(2) [OF assms(1)] midnight_counters by simp
next
  case (flush ap st fs')
  then show ?thesis using background_inv_parts(1) [OF assms(1)] store_loops by simp
next
  case (rewrite io ord tmp st fs')
  then show ?thesis using background_inv_parts(1) [OF assms(1), of st] writeAll_store by (simp add: store_inv_def)
next
  case (save_state io tmp st fs')
  then show ?thesis using background_inv_parts(1) [OF assms(1), of st] flushState_store by (simp add: store_inv_def)
qed (use cache_sweep_inv [OF assms(1)] in simp_all)

lemmas setter_defs = SetStaticRecords_def SetCBCooldown_def SetGlobalCBCooldown_def SetTimeout_def SetGlobalTimeout_def

lemma build_resolver_fields:
  "r_metrics (build_resolver L conv cfg c s m) = m" "r_active (build_resolver L conv cfg c s m) = 0"
  "\<not> r_stopped (build_resolver L conv cfg c s m)"
  "cb_state (iranCb (build_resolver L conv cfg c s m)) = cbClosed"
  "cb_state (globalCb (build_resolver L conv cfg c s m)) = cbClosed"
  "r_store (build_resolver L conv cfg c s m) = s"
  by (simp_all add: build_resolver_def with_cooldown_def resolver_New_def new_breaker_def setter_defs
      Let_def split: option.splits)

lemma cache_New_safe: "r_cache r = cache_New lo hi n \<Longrightarrow> cache_safe E r \<and> cache_ok n (r_cache r)"
  by (simp add: cache_safe_def stored_def cache_New_def cache_ok_def cache_inv_def)

lemma store_New_inv: "store_New rf file hasm stp fs = Inr st \<Longrightarrow> store_inv st"
  by (auto simp: store_New_def store_load_def empty_store_def store_inv_def load_lines_distinct
      split: option.splits prod.splits load_error.splits if_splits)

lemma sys_start_inv:
  assumes "sys_start E s"
  shows "sys_inv E s"
proof -
  obtain conv decode sio cfgPath now today fs where
    st: "start (e_lib E) conv decode sio cfgPath now today fs = Inr (sys_sv s, sys_fs s)"
    and e: "sys_flights s = []" "sys_log s = []"
    using assms by (auto simp: sys_start_def)
  define cfg where "cfg = sv_cfg (sys_sv s)"
  obtain c st0 where sv: "sv_cfg (sys_sv s) = cfg" "sv_limiter (sys_sv s) = limiter_New (RateLimitPerClient cfg)"
    "sys_res s = build_resolver (e_lib E) conv cfg c st0
       (RestoreFromFile (StateFile cfg) today (sys_fs s) (metrics_New now))"
    "store_New (learned_read_fails sio) (Learned cfg) True (StateFile cfg) (sys_fs s) = Inr st0"
    using start_fields [OF st] unfolding cfg_def by blast
  have z: "cnt (RestoreFromFile (StateFile cfg) today (sys_fs s) (metrics_New now)) x = 0"
    if "x \<noteq> LearnedTotal" "x \<noteq> LearnedTotalAtMidnight" for x
    using RestoreFromFile_cnt(2) [OF that] by (simp add: metrics_New_def)
  have m: "cnt (r_metrics (sys_res s)) x = 0" if "x \<noteq> LearnedTotal" "x \<noteq> LearnedTotalAtMidnight" for x
    using z [OF that] by (simp add: sv(3) build_resolver_fields)
  have "cache_safe E (sys_res s) \<and> cache_ok (CacheMaxEntries cfg) (r_cache (sys_res s))"
    by (rule cache_New_safe) (simp add: sv(3) build_resolver_cache)
  moreover have "gauge_ok (sys_res s)"
    using m [of IranCBOpen] m [of GlobalCBOpen] by (simp add: gauge_ok_def sv(3) build_resolver_fields)
  moreover have "tally (sys_res s) = 0" "seen (sys_res s) = 0" by (simp_all add: tally_def seen_def m)
  moreover have "r_active (sys_res s) = 0" "\<not> r_stopped (sys_res s)" by (simp_all add: sv(3) build_resolver_fields)
  moreover have "store_inv (r_store (sys_res s))"
    using store_New_inv [OF sv(4)] by (simp add: sv(3) build_resolver_fields)
  ultimately show ?thesis
    using e sv(1,2) m [of InFlightQueries] limiter_New_inv by (simp add: sys_inv_def questions_def)
qed

text \<open>The hypotheses on \<open>github.com/miekg/dns\<close> and on the iteration of a Go map.\<close>

definition env_ok :: "env \<Rightarrow> bool" where
  "env_ok E \<longleftrightarrow> lib_types_ok (e_lib E) \<and> lib_reply_ok (e_lib E) \<and> lib_rcode_ok (e_lib E) \<and> iter_order (e_order E)"

interpretation running: invariant_system "sys_start E" "sys_step E" "\<lambda>s. env_ok E \<longrightarrow> sys_inv E s"
  for E :: env
  by unfold_locales (use sys_start_inv sys_step_inv in \<open>auto simp: env_ok_def\<close>)

abbreviation sys_reach :: "env \<Rightarrow> sys \<Rightarrow> bool" where
  "sys_reach E \<equiv> reachable (sys_start E) (sys_step E)"

section \<open>Properties of the running program\<close>

text \<open>
  C1. In every state the program can reach, however requests, shared flights, stray goroutines and
  background loops follow each other and whatever the network answers: every message ever written for
  an address query carries the request's identifier and is REFUSED or SERVFAIL without any record, the
  pinned record, an answer of the global server, or an answer of the Iranian server without a hijacked
  address.
\<close>

theorem every_reply_safe:
  assumes "env_ok E" "sys_reach E s" "(req, m) \<in> set (sys_log s)" "mQuestion req = q # qs" "address_type (qType q)"
  shows "mId m = mId req \<and>
    (mAnswer m = [] \<and> mRcode m \<in> {RcodeRefused, RcodeServerFailure}
     \<or> (\<exists>ip. staticLookup (sys_res s) (qName q) = Some ip \<and> m = staticResponse (e_lib E) req q ip)
     \<or> (\<exists>m0. m = m0\<lparr>mId := mId req\<rparr> \<and> (from_global E (sys_res s) m0
           \<or> from_iran E (sys_res s) m0 \<and> \<not> isHijacked (sys_res s) (extractIPs m))))"
proof -
  have "written_ok E (sys_res s) req m" using running.reachable_inv [OF assms(2)] assms(1,3) by (auto simp: sys_inv_def)
  then have w: "mId m = mId req" "(mRcode m = RcodeRefused \<and> mAnswer m = []) \<or> reply_ok E (sys_res s) req q m"
    using assms(4,5) by (auto simp: written_ok_def)
  from w(2) show ?thesis using w(1) by (auto simp: reply_ok_def good_def)
qed

text \<open>
  C11. Every message ever written answers its own request: it carries the request's identifier, whether
  the request was malformed, refused, limited, pinned, cached, resolved, or given the result of
  another caller's flight.
\<close>

theorem every_reply_id:
  assumes "env_ok E" "sys_reach E s" "(req, m) \<in> set (sys_log s)"
  shows "mId m = mId req"
  using running.reachable_inv [OF assms(2)] assms(1,3) by (auto simp: sys_inv_def written_ok_def)


text \<open>
  C10. In every reachable state the cache holds at most the configured number of responses (when the limit
  is positive), under distinct keys.
\<close>

theorem running_cache_bounded:
  assumes "env_ok E" "sys_reach E s" "CacheMaxEntries (sv_cfg (sys_sv s)) > 0"
  shows "int (length (c_entries (r_cache (sys_res s)))) \<le> CacheMaxEntries (sv_cfg (sys_sv s))
     \<and> distinct (map fst (c_entries (r_cache (sys_res s))))"
  using running.reachable_inv [OF assms(2)] assms(1,3) by (auto simp: sys_inv_def cache_ok_def cache_inv_def)


section \<open>Every request is answered\<close>

text \<open>A run of the handler exists when the domain takes one of the two paths without a race, or when the
  deadline is the first event at every \<open>select\<close>.\<close>

definition unstuck :: "env \<Rightarrow> resolver \<Rightarrow> string \<Rightarrow> bool" where
  "unstuck E r d \<longleftrightarrow> isIranTLD r d \<or> isPreferIran r d \<or> e_pick E = (\<lambda>n. PickDone)"

lemma unstuck_config: "same_config r s \<Longrightarrow> unstuck E s d = unstuck E r d"
  by (simp add: unstuck_def isIranTLD_def isPreferIran_def same_config_def)

lemma learning_total: "e_pick E = (\<lambda>n. PickDone) \<Longrightarrow> resolveWithLearning E ctx req d r \<noteq> None"
  by (simp add: resolveWithLearning_def await_def Let_def case_prod_unfold)

lemma resolve_total:
  assumes "unstuck E r d"
  shows "resolve E ctx req d r \<noteq> None"
proof (cases "isIranTLD r d \<or> isPreferIran r d")
  case True
  then show ?thesis
    by (auto simp: resolve_def resolve_tld_def resolve_prefer_def via_global_def Let_def split: prod.splits option.splits)
next
  case False
  then have l: "\<exists>x s'. resolveWithLearning E ctx req d s = Some (x, s')" for s
    using assms learning_total [of E ctx req d s] by (auto simp: unstuck_def)
  have "via_global E ctx q s \<noteq> None" for q s by (simp add: via_global_def Let_def case_prod_unfold)
  then have "resolve_store E ctx req d r \<noteq> None"
    using l unfolding resolve_store_def Let_def case_prod_unfold
    by (simp add: bind_eq_None_conv split: option.split del: not_None_eq) fastforce
  moreover obtain x s where "resolveWithLearning E ctx req d (bump PathLearn 1 r) = Some (x, s)" using l by blast
  ultimately show ?thesis using False by (simp add: resolve_def del: not_None_eq)
qed

lemma flight_total:
  assumes "unstuck E r d"
  shows "flight E ctx req d r \<noteq> None"
proof -
  obtain x s where x: "resolve E ctx req d r = Some (x, s)" using resolve_total [OF assms, of ctx req] by auto
  let ?t = "tickup (bump QueriesRetried 1 s)"
  have "same_config r s" using resolve_spec [OF x] by (simp add: path_step_def)
  then have "same_config r ?t" by (simp add: same_config_def bump_def tickup_def)
  then obtain y u where y: "resolve E ctx req d ?t = Some (y, u)"
    using resolve_total [of E ?t d ctx req] unstuck_config assms by auto
  show ?thesis unfolding flight_def x Let_def by (simp add: y case_prod_unfold split: option.splits)
qed

lemma Resolve_total:
  assumes "mQuestion req = q # qs" "unstuck E r (qName q)"
  shows "Resolve E ctx shared (Some req) r \<noteq> None"
proof -
  have f: "flight E ctx req (qName q) (bump CacheMiss 1 (looked_up c (enter r))) \<noteq> None" for c
    using assms(2) unstuck_config [of r "bump CacheMiss 1 (looked_up c (enter r))"]
    by (intro flight_total) (simp add: same_config_def tickup_def bump_def enter_def)
  have "Resolve_body E ctx shared req q (enter r) \<noteq> None"
    using f by (simp add: Resolve_body_def Resolve_miss_def Let_def bind_eq_None_conv case_prod_unfold
        split: option.splits del: not_None_eq)
  then show ?thesis using assms(1) by (simp add: Resolve_def bind_eq_None_conv case_prod_unfold del: not_None_eq)
qed


section \<open>Witnesses\<close>

text \<open>The program started with the sample configuration, and one request whose Iranian answer is
  hijacked.\<close>

definition sample_fs :: fs where
  "sample_fs = [''c'' \<mapsto> [], ''data/iran-ranges.txt'' \<mapsto> ''5.22.0.0/17'']"

definition sample_logger :: logger where
  "sample_logger = fst (logger_New True ''info'' True ''/var/log/sentrydns/sentrydns.log'' Map.empty)"

definition sample_sv :: server where
  "sample_sv = \<lparr>sv_cfg = sample_config, sv_res = build_resolver sample_lib (\<lambda>_. 0) sample_config sample_classifier
      (empty_store ''data/learned.conf'' True ''data/.sentrydns-state'')
      (RestoreFromFile ''data/.sentrydns-state'' ''2024-01-01'' sample_fs (metrics_New 0)),
     sv_limiter = limiter_New 0, sv_global = NewGlobal 0 0, sv_loopIPs = loop_ips sample_config,
     sv_updater = build_updater sample_config, sv_log = sample_logger\<rparr>"

lemma sample_start:
  "start sample_lib (\<lambda>_. 0) (\<lambda>_ _. Decoded sample_config)
     \<lparr>mkdir_fails = False, log_open_fails = True, ranges_read_fails = False, learned_read_fails = False\<rparr>
     ''c'' 0 ''2024-01-01'' sample_fs = Inr (sample_sv, sample_fs)"
proof -
  have c: "classifier_New False ''data/iran-ranges.txt'' sample_fs = Inr sample_classifier" by code_simp
  have s: "store_New False ''data/learned.conf'' True ''data/.sentrydns-state'' sample_fs
     = Inr (empty_store ''data/learned.conf'' True ''data/.sentrydns-state'')" by code_simp
  have f: "IranRanges sample_config = ''data/iran-ranges.txt''" "Learned sample_config = ''data/learned.conf''"
    "StateFile sample_config = ''data/.sentrydns-state''" "RateLimitPerClient sample_config = 0" "GlobalQPSLimit sample_config = 0"
    by (simp_all add: sample_config_def defaultConfig_def)
  have l: "config_Load (\<lambda>_ _. Decoded sample_config) ''c'' sample_fs = (Some sample_config, None)"
    using sample_config_valid by (simp add: config_Load_def sample_fs_def)
  have g: "logger_New True (LogLevel sample_config) (LogFormat sample_config = ''json'') (LogFile sample_config) sample_fs
      = (sample_logger, sample_fs)"
    by (simp add: logger_New_def sample_logger_def sample_config_def defaultConfig_def)
  show ?thesis
    unfolding start_def l prod.case option.case start_io.simps g f c s sum.case Let_def sample_sv_def
    by (simp add: ensureLogDir_def)
qed

lemma hijacked_env_ok: "env_ok hijacked_env"
  using sample_lib_ok iter_order_id by (simp add: env_ok_def sample_env_def)

lemma sample_handled: "\<exists>m sv'. handle hijacked_env ''192.0.2.7:999'' None tld_req sample_sv = Some (m, sv')"
proof -
  have g: "global_gate hijacked_env sample_sv = (True, sample_sv)" "client_gate hijacked_env ip sample_sv = (True, sample_sv)" for ip
    by (simp_all add: global_gate_def client_gate_def sample_sv_def sample_config_def defaultConfig_def)
  have "isIranTLD (sv_res sample_sv) ''a.ir.''" by code_simp
  then have t: "isIranTLD (tickup (sv_res sample_sv)) ''a.ir.''" by (simp add: isIranTLD_def tickup_def)
  have q: "mQuestion tld_req = [\<lparr>qName = ''a.ir.'', qType = 1, qClass = 1\<rparr>]" by (simp add: sample_query_def)
  obtain v r' where "Resolve hijacked_env (Some (e_clock hijacked_env (tick (sv_res sample_sv)) + 10 * second)) None
      (Some tld_req) (tickup (sv_res sample_sv)) = Some (v, r')"
    using Resolve_total [OF q] t unfolding unstuck_def by (metis (no_types) not_None_eq prod.collapse question.select_convs(1))
  then show ?thesis by (simp add: handle_def Let_def g q)
qed

lemma sample_system:
  obtains s m where "sys_reach hijacked_env s" "sys_log s = [(tld_req, m)]"
    "sv_cfg (sys_sv s) = sample_config"
proof -
  obtain m sv' where h: "handle hijacked_env ''192.0.2.7:999'' None tld_req sample_sv = Some (m, sv')"
    using sample_handled by blast
  let ?s = "\<lparr>sys_sv = sample_sv, sys_fs = sample_fs, sys_flights = [], sys_log = []\<rparr>"
  let ?t = "?s\<lparr>sys_sv := sv', sys_log := [(tld_req, m)]\<rparr>"
  have "sys_start hijacked_env ?s"
    using sample_start unfolding sys_start_def sys.simps sample_env_lib by blast
  then have "sys_reach hijacked_env ?s" by (rule reachable.intros)
  moreover have "sys_step hijacked_env ?s ?t"
    using request [of hijacked_env _ None tld_req ?s m sv'] h by (simp add: may_share_def)
  ultimately have r: "sys_reach hijacked_env ?t" by (rule reachable.intros)
  have "sv_cfg sv' = sample_config" using h by (cases rule: handle_cases) (simp_all add: sample_sv_def)
  then show ?thesis using that [OF r] by simp
qed

theorem every_reply_safe_witness:
  "\<exists>s m. sys_log s = [(tld_req, m)] \<and> mId m = 77
     \<and> (mAnswer m = [] \<or> staticLookup (sys_res s) ''a.ir.'' \<noteq> None \<or> (\<exists>m0. from_global hijacked_env (sys_res s) m0)
        \<or> \<not> isHijacked (sys_res s) (extractIPs m))"
proof -
  obtain s m where s: "sys_reach hijacked_env s" "sys_log s = [(tld_req, m)]" by (rule sample_system)
  have q: "mQuestion tld_req = \<lparr>qName = ''a.ir.'', qType = 1, qClass = 1\<rparr> # []" by (simp add: sample_query_def)
  have i: "mId tld_req = 77" by (simp add: sample_query_def)
  show ?thesis
    using every_reply_safe [OF hijacked_env_ok s(1) _ q, of m] s(2) i
    by (intro exI [of _ s] exI [of _ m]) (auto simp: address_type_def)
qed

theorem every_reply_id_witness:
  "\<exists>(s::sys) m. sys_log s = [(tld_req, m)] \<and> mId m = 77"
proof -
  obtain s m where s: "sys_reach hijacked_env s" "sys_log s = [(tld_req, m)]" by (rule sample_system)
  have "mId m = mId tld_req" by (rule every_reply_id [OF hijacked_env_ok s(1)]) (simp add: s(2))
  then have "mId m = 77" by (simp add: sample_query_def)
  then show ?thesis using s(2) by blast
qed


theorem running_cache_bounded_witness:
  "\<exists>s m. sys_log s = [(tld_req, m)] \<and> int (length (c_entries (r_cache (sys_res s)))) \<le> 100000"
proof -
  obtain s m where s: "sys_reach hijacked_env s" "sys_log s = [(tld_req, m)]"
    "sv_cfg (sys_sv s) = sample_config" by (rule sample_system)
  have "CacheMaxEntries sample_config = 100000" by (simp add: sample_config_def defaultConfig_def)
  with running_cache_bounded [OF hijacked_env_ok s(1)] s(2,3) show ?thesis by auto
qed


end
