(* ===== verification/Store_Persist.thy ===== *)
theory Store_Persist
  imports Domain_Store
begin

text \<open>
  The goroutines that share a store, interleaved at its critical sections. \<open>Add\<close> first enters the
  domain in the map (under \<open>mu\<close>) and later appends it to the buffer (under \<open>persistMu\<close>):
  \<open>adding\<close> holds the domains in between. \<open>flushPersist\<close> drains the buffer (under \<open>persistMu\<close>) and
  later writes it (under \<open>ioMu\<close>): \<open>flushing\<close> holds the drained batches. \<open>writeAll\<close> holds \<open>ioMu\<close>
  from the increment of \<open>writeGen\<close> to the rename, and takes its snapshot of the map in between:
  \<open>rewriting\<close> is where it stands. The parameter \<open>faults\<close> of the step relation allows system calls to
  fail.
\<close>

datatype rewrite_pc = NoRewrite | GenBumped | Snapshot "string list"

record psys =
  ps_store :: store
  ps_fs :: fs
  adding :: "string list"
  flushing :: "(string list \<times> 64 word) list"
  rewriting :: rewrite_pc

inductive ps_step :: "bool \<Rightarrow> psys \<Rightarrow> psys \<Rightarrow> bool" for faults :: bool where
  add_map: "d = normalize name \<Longrightarrow> storable d \<Longrightarrow> d \<notin> set (domains (ps_store y)) \<Longrightarrow>
    ps_step faults y (y\<lparr>ps_store := (ps_store y)\<lparr>domains := domains (ps_store y) @ [d]\<rparr>,
                        adding := d # adding y\<rparr>)"
| add_persist: "d \<in> set (adding y) \<Longrightarrow>
    ps_step faults y (y\<lparr>ps_store := persist d (ps_store y), adding := remove1 d (adding y)\<rparr>)"
| remove_map: "d = normalize name \<Longrightarrow> d \<in> set (domains (ps_store y)) \<Longrightarrow>
    ps_step faults y (y\<lparr>ps_store := scheduleRewrite
                          ((ps_store y)\<lparr>domains := remove1 d (domains (ps_store y))\<rparr>)\<rparr>)"
| clean_map: "delete_all rs (domains (ps_store y)) 0 = (ds, n) \<Longrightarrow>
    ps_step faults y (y\<lparr>ps_store := (ps_store y)\<lparr>domains := ds\<rparr>\<rparr>)"
| drain: "flush_drain (ps_store y) = (Some b, s) \<Longrightarrow>
    ps_step faults y (y\<lparr>ps_store := s, flushing := b # flushing y\<rparr>)"
| flush: "b \<in> set (flushing y) \<Longrightarrow> rewriting y = NoRewrite \<Longrightarrow> faults \<or> ap = append_fine \<Longrightarrow>
    ps_step faults y (y\<lparr>ps_fs := flush_write ap b (ps_store y) (ps_fs y),
                        flushing := remove1 b (flushing y)\<rparr>)"
| rewrite_begin: "rewriting y = NoRewrite \<Longrightarrow>
    ps_step faults y (y\<lparr>ps_store := (ps_store y)\<lparr>writeGen := writeGen (ps_store y) + 1, rewriteTimer := False\<rparr>,
                        rewriting := GenBumped\<rparr>)"
| rewrite_snapshot: "rewriting y = GenBumped \<Longrightarrow>
    ps_step faults y (y\<lparr>rewriting := Snapshot (sort (domains (ps_store y)))\<rparr>)"
| rewrite_finish: "rewriting y = Snapshot ds \<Longrightarrow> tmp \<noteq> s_file (ps_store y) \<Longrightarrow> faults \<or> \<not> writeAll_err io \<Longrightarrow>
    ps_step faults y (y\<lparr>ps_fs := fs_run (writeAll_calls io tmp (s_file (ps_store y)) ds) (ps_fs y),
                        rewriting := NoRewrite\<rparr>)"

text \<open>A store just opened on a file of storable lines.\<close>

definition ps_init :: "psys \<Rightarrow> bool" where
  "ps_init y \<longleftrightarrow> (\<exists>file hasm stp ls. list_all storable ls \<and> ps_fs y file = Some (line_text ls)
      \<and> store_New False file hasm stp (ps_fs y) = Inr (ps_store y)
      \<and> adding y = [] \<and> flushing y = [] \<and> rewriting y = NoRewrite)"

definition quiescent :: "psys \<Rightarrow> bool" where
  "quiescent y \<longleftrightarrow> adding y = [] \<and> persistBuf (ps_store y) = [] \<and> flushing y = [] \<and> rewriting y = NoRewrite"

section \<open>The invariant\<close>

text \<open>What the file will hold once a rewrite that is under way has finished.\<close>

definition secured :: "psys \<Rightarrow> string list \<Rightarrow> string \<Rightarrow> bool" where
  "secured y ls d = (case rewriting y of NoRewrite \<Rightarrow> d \<in> set ls | GenBumped \<Rightarrow> True
                     | Snapshot ds \<Rightarrow> d \<in> set ds)"

text \<open>A domain on its way to the file, in a batch that no rewrite has overtaken.\<close>

definition on_its_way :: "psys \<Rightarrow> string \<Rightarrow> bool" where
  "on_its_way y d \<longleftrightarrow> d \<in> set (adding y)
     \<or> (d \<in> set (persistBuf (ps_store y)) \<and> persistBufGen (ps_store y) = writeGen (ps_store y))
     \<or> (\<exists>ds. (ds, writeGen (ps_store y)) \<in> set (flushing y) \<and> d \<in> set ds)"

definition all_storable :: "psys \<Rightarrow> bool" where
  "all_storable y \<longleftrightarrow> list_all storable (domains (ps_store y)) \<and> list_all storable (adding y)
     \<and> list_all storable (persistBuf (ps_store y)) \<and> list_all (\<lambda>b. list_all storable (fst b)) (flushing y)
     \<and> (case rewriting y of Snapshot ds \<Rightarrow> list_all storable ds | _ \<Rightarrow> True)"

definition ps_inv :: "psys \<Rightarrow> bool" where
  "ps_inv y \<longleftrightarrow> all_storable y \<and> (\<exists>ls. list_all storable ls \<and> ps_fs y (s_file (ps_store y)) = Some (line_text ls)
      \<and> (\<forall>d \<in> set (domains (ps_store y)). secured y ls d \<or> on_its_way y d))"

lemma ps_invI:
  assumes "all_storable y" "list_all storable ls" "ps_fs y (s_file (ps_store y)) = Some (line_text ls)"
    and "\<forall>d \<in> set (domains (ps_store y)). secured y ls d \<or> on_its_way y d"
  shows "ps_inv y"
  using assms by (auto simp: ps_inv_def)

lemma append_fine_run:
  "fs_run (append_calls append_fine p ds) fs p =
     Some ((case fs p of None \<Rightarrow> [] | Some c \<Rightarrow> c) @ line_text ds)"
proof -
  have "map (\<lambda>(i, d). Op_append p (cut_line append_fine i d)) (enumerate n ds)
      = map (\<lambda>d. Op_append p (d @ [NL])) ds" for n
    by (induction ds arbitrary: n) (simp_all add: cut_line_def append_fine_def)
  then have "append_calls append_fine p ds = Op_append p [] # map (\<lambda>d. Op_append p (d @ [NL])) ds"
    by (simp add: append_calls_def append_fine_def)
  then show ?thesis
    by (cases "fs p") (auto simp: fs_run_appends line_text_def)
qed

lemma list_all_remove1: "list_all P xs \<Longrightarrow> list_all P (remove1 x xs)"
  by (auto simp: list_all_iff dest: notin_set_remove1 set_remove1_subset [THEN subsetD])

lemma delete_all_subset: "delete_all rs ds n = (ds', k) \<Longrightarrow> set ds' \<subseteq> set ds"
proof (induction rs ds n rule: delete_all.induct)
  case (2 d rs ds n)
  then show ?case using set_remove1_subset [of d ds] by (auto split: if_splits)
qed simp

lemma ps_init_inv: "ps_init y \<Longrightarrow> ps_inv y"
proof -
  assume "ps_init y"
  then obtain p hasm stp ls where *: "list_all storable ls" "ps_fs y p = Some (line_text ls)"
    "store_New False p hasm stp (ps_fs y) = Inr (ps_store y)" "adding y = []" "flushing y = []"
    "rewriting y = NoRewrite" by (auto simp: ps_init_def)
  have "list_all clean_line ls" using *(1) storable_clean by (auto simp: list_all_iff)
  then have "ps_store y = (empty_store p hasm stp)\<lparr>domains := load_lines ls []\<rparr>"
    using * by (simp add: store_New_def store_load_def empty_store_def scan_line_text)
  then show "ps_inv y"
    using * load_lines_set [OF *(1), of "[]"]
    by (intro ps_invI [of _ ls])
       (auto simp: all_storable_def empty_store_def secured_def on_its_way_def list_all_iff)
qed

lemma on_its_way_flush:
  assumes "on_its_way y d"
  shows "on_its_way (y\<lparr>ps_fs := fs, flushing := remove1 b (flushing y)\<rparr>) d
       \<or> d \<in> set (fst b) \<and> snd b = writeGen (ps_store y)"
proof -
  have "x \<in> set (remove1 b (flushing y))" if "x \<in> set (flushing y)" "x \<noteq> b" for x
    using that by (simp add: in_set_remove1)
  then show ?thesis using assms unfolding on_its_way_def by fastforce
qed

text \<open>Writing a drained batch: the file grows by it, or a rewrite has overtaken it and it is dropped.\<close>

lemma flush_inv:
  assumes st: "all_storable y" and ls: "list_all storable ls"
    and f: "ps_fs y (s_file (ps_store y)) = Some (line_text ls)"
    and c: "\<forall>d \<in> set (domains (ps_store y)). secured y ls d \<or> on_its_way y d"
    and b: "b \<in> set (flushing y)" "rewriting y = NoRewrite"
  shows "ps_inv (y\<lparr>ps_fs := flush_write append_fine b (ps_store y) (ps_fs y), flushing := remove1 b (flushing y)\<rparr>)"
    (is "ps_inv ?z")
proof -
  have bs: "list_all storable (fst b)" using b(1) st by (auto simp: all_storable_def list_all_iff)
  note way = on_its_way_flush [of y _ b "flush_write append_fine b (ps_store y) (ps_fs y)"]
  show ?thesis
  proof (cases "writeGen (ps_store y) = snd b")
    case True
    then have "ps_fs ?z (s_file (ps_store ?z)) = Some (line_text (ls @ fst b))"
      using f by (simp add: flush_write_def append_fine_run line_text_append)
    then show ?thesis using b st ls bs c way
      by (intro ps_invI [of _ "ls @ fst b"]) (auto simp: all_storable_def secured_def list_all_remove1)
  next
    case False
    then have "ps_fs ?z (s_file (ps_store ?z)) = Some (line_text ls)" using f by (simp add: flush_write_def)
    then show ?thesis using False b st ls c way
      by (intro ps_invI [of _ ls]) (auto simp: all_storable_def secured_def list_all_remove1)
  qed
qed

lemma ps_step_inv:
  assumes "ps_inv y" "ps_step False y z"
  shows "ps_inv z"
proof -
  obtain ls where st: "all_storable y" and ls: "list_all storable ls"
    and f: "ps_fs y (s_file (ps_store y)) = Some (line_text ls)"
    and c: "\<forall>d \<in> set (domains (ps_store y)). secured y ls d \<or> on_its_way y d"
    using assms(1) by (auto simp: ps_inv_def)
  from assms(2) show ?thesis
  proof cases
    case (add_map d name)
    then show ?thesis using st ls f c
      by (intro ps_invI [of _ ls]) (auto simp: all_storable_def secured_def on_its_way_def)
  next
    case (add_persist d)
    then have "storable d" using st by (auto simp: all_storable_def list_all_iff)
    then show ?thesis using add_persist st ls f c
      by (intro ps_invI [of _ ls])
         (auto simp: all_storable_def persist_def secured_def on_its_way_def list_all_remove1
           in_set_remove1)
  next
    case (remove_map d name)
    then show ?thesis using st ls f c set_remove1_subset [of d "domains (ps_store y)"]
      by (intro ps_invI [of _ ls])
         (auto simp: all_storable_def scheduleRewrite_def secured_def on_its_way_def list_all_remove1)
  next
    case (clean_map rs ds n)
    then show ?thesis using st ls f c delete_all_subset [OF clean_map(2)]
      by (intro ps_invI [of _ ls])
         (auto simp: all_storable_def secured_def on_its_way_def list_all_iff)
  next
    case (drain b s)
    then have b: "b = (persistBuf (ps_store y), persistBufGen (ps_store y))"
      and s: "s = (ps_store y)\<lparr>persistBuf := [], persistBufGen := 0\<rparr>"
      by (auto simp: flush_drain_def split: if_splits)
    show ?thesis using st ls f c unfolding drain(1) b s
      by (intro ps_invI [of _ ls]) (auto simp: all_storable_def secured_def on_its_way_def, metis)
  next
    case (flush b ap)
    then show ?thesis using flush_inv [OF st ls f c] by simp
  next
    case rewrite_begin
    then show ?thesis using st ls f
      by (intro ps_invI [of _ ls]) (auto simp: all_storable_def secured_def)
  next
    case rewrite_snapshot
    then show ?thesis using st ls f
      by (intro ps_invI [of _ ls]) (auto simp: all_storable_def secured_def list_all_iff)
  next
    case (rewrite_finish ds tmp io)
    then show ?thesis using st c
      by (intro ps_invI [of _ ds]) (auto simp: all_storable_def writeAll_ok secured_def on_its_way_def)
  qed
qed

interpretation persistence: invariant_system ps_init "ps_step False" ps_inv
  by unfold_locales (auto intro: ps_init_inv ps_step_inv)


section \<open>Runs\<close>

text \<open>Two runs that learn \<open>a.b\<close> on an empty file: one flushes it, in the other a rewrite that
  fails to create its temporary file comes in between.\<close>

definition run_start :: psys where
  "run_start = \<lparr>ps_store = empty_store ''f'' False [], ps_fs = [''f'' \<mapsto> []], adding = [], flushing = [],
                rewriting = NoRewrite\<rparr>"

definition run_learnt :: psys where
  "run_learnt = run_start\<lparr>ps_store := (empty_store ''f'' False [])\<lparr>domains := [''a.b''],
     persistBuf := [''a.b'']\<rparr>\<rparr>"

lemma storable_sample: "storable ''a.b''"
  by code_simp

lemma run_start_init: "ps_init run_start"
  unfolding ps_init_def
  by (intro exI [of _ "''f''"] exI [of _ False] exI [of _ "[]"])
     (simp add: run_start_def line_text_def store_New_def store_load_def empty_store_def)

lemma run_learnt_reachable: "reachable ps_init (ps_step fl) run_learnt"
proof -
  let ?y = "run_start\<lparr>ps_store := (empty_store ''f'' False [])\<lparr>domains := [''a.b'']\<rparr>, adding := [''a.b'']\<rparr>"
  have "ps_step fl run_start ?y"
    using ps_step.add_map [of "''a.b''" "''a.b''" run_start fl, OF _ storable_sample]
    by (simp add: run_start_def empty_store_def normalize_def TrimSuffix_dot ToLower_def ascii_lower_def)
  moreover have "ps_step fl ?y run_learnt"
    using ps_step.add_persist [of "''a.b''" ?y fl]
    by (simp add: run_start_def run_learnt_def empty_store_def persist_def)
  ultimately show ?thesis
    by (meson reachable.start reachable.advance run_start_init)
qed



end
