(* ===== verification/Provenance.thy ===== *)
theory Provenance
  imports System Store_Persist
begin

text \<open>
  Where the learned domains of a running program come from. The learned set is shared by every request,
  the goroutines left behind, the cleanup and the timers of the store; this theory follows it through
  all steps of \<open>System\<close>.
\<close>

section \<open>One request\<close>

text \<open>The learned set gains at most the domain of the request, and only with evidence.\<close>

definition gain :: "env \<Rightarrow> string \<Rightarrow> resolver \<Rightarrow> resolver \<Rightarrow> bool" where
  "gain E d r r' \<longleftrightarrow> set (domains (r_store r')) \<subseteq> set (domains (r_store r)) \<union> (if evidence E r then {normalize d} else {})"

lemma gain_same: "r_store r' = r_store r \<Longrightarrow> gain E d r r'"
  by (simp add: gain_def)

lemma evidence_config: "same_config r s \<Longrightarrow> evidence E s = evidence E r"
  using from_config [of r s E] config_verified [of r s] by (simp add: evidence_def)

lemma gain_trans: "gain E d r s \<Longrightarrow> same_config r s \<Longrightarrow> gain E d s t \<Longrightarrow> gain E d r t"
  using evidence_config [of r s E] by (auto simp: gain_def split: if_splits)

lemma gain_store_eq:
  "r_store r0 = r_store r \<Longrightarrow> same_config r0 r \<Longrightarrow> gain E d r0 s \<Longrightarrow> gain E d r s"
  using evidence_config [of r0 r E] by (simp add: gain_def)

lemma via_global_store: "via_global E ctx req r = Some (m, r') \<Longrightarrow> r_store r' = r_store r"
  using query_spec [of E ctx req "globalDNS r" "bump QueriesGlobal 1 r"]
  by (auto simp: via_global_def net_step_def bump_def split: prod.splits)

lemma learning_gain: "resolveWithLearning E ctx req d r = Some (x, r') \<Longrightarrow> gain E d r r'"
  using resolveWithLearning_spec [of E ctx req d r x r'] by (auto simp: learn_run_def gain_def)

lemma bump_config [simp]: "same_config (bump c n r) s = same_config r s" "r_store (bump c n r) = r_store r"
  by (simp_all add: same_config_def bump_def)

lemma forget_domain_gain: "gain E d r (forget_domain d r) \<and> same_config r (forget_domain d r)"
  using set_remove1_subset [of "normalize d" "domains (r_store r)"] store_Remove_domains [of d "r_store r" "r_metrics r"]
  by (auto simp: gain_def forget_domain_def same_config_def split: prod.splits)

lemma resolve_gain:
  assumes "resolve E ctx req d r = Some (m, r')"
  shows "gain E d r r'"
proof -
  consider (tld) "resolve_tld E ctx req r = Some (m, r')" | (pref) "resolve_prefer E ctx req r = Some (m, r')"
    | (store) "resolve_store E ctx req d r = Some (m, r')"
    | (learn) x where "resolveWithLearning E ctx req d (bump PathLearn 1 r) = Some (x, r')"
    using assms by (auto simp: resolve_def bind_eq_Some_conv split: if_splits)
  then show ?thesis
  proof cases
    case tld
    obtain x q s where s: "queryIranDNS E ctx req (bump PathTLD 1 r) = (x, q, s)" by (metis prod_cases3)
    have "r_store s = r_store r" using queryIranDNS_spec [OF s] by (simp add: net_step_def)
    then show ?thesis
      using tld s via_global_store by (intro gain_same) (auto simp: resolve_tld_def Let_def split: option.splits if_splits)
  next
    case pref
    obtain x q s where s: "queryIranDNS E ctx req (bump PathPreferIran 1 r) = (x, q, s)" by (metis prod_cases3)
    have "r_store s = r_store r" using queryIranDNS_spec [OF s] by (simp add: net_step_def)
    then show ?thesis
      using pref s via_global_store by (intro gain_same) (auto simp: resolve_prefer_def Let_def split: option.splits if_splits)
  next
    case store
    obtain x q s where s: "query E ctx req (iranDNS r) (bump PathStore 1 r) = (x, q, s)" by (metis prod_cases3)
    have n: "r_store s = r_store r" "same_config r s" using query_spec [OF s] by (simp_all add: net_step_def)
    have "r_store r' = r_store r
        \<or> (\<exists>y. resolveWithLearning E ctx req d (forget_domain d s) = Some (y, r'))"
      using store s n(1) via_global_store
      by (auto simp: resolve_store_def Let_def bind_eq_Some_conv split: option.splits if_splits)
    then show ?thesis
    proof
      assume "\<exists>y. resolveWithLearning E ctx req d (forget_domain d s) = Some (y, r')"
      then have "gain E d (forget_domain d s) r'" using learning_gain by blast
      then have "gain E d s r'" using gain_trans forget_domain_gain by blast
      then show ?thesis using gain_trans [OF gain_same n(2)] n(1) by blast
    qed (rule gain_same)
  next
    case (learn x)
    show ?thesis
      using gain_store_eq [OF _ _ learning_gain [OF learn]] by simp
  qed
qed

lemma flight_end_store [simp]: "r_store (snd (flight_end E req x r)) = r_store r"
  by (auto simp: flight_end_def split: option.splits if_splits)

lemma flight_gain:
  assumes "flight E ctx req d r = Some (v, r')"
  shows "gain E d r r'"
proof -
  obtain x s where x: "resolve E ctx req d r = Some (x, s)" using assms by (auto simp: flight_def bind_eq_Some_conv)
  have g: "gain E d r s" "same_config r s" using resolve_gain [OF x] resolve_spec [OF x] by (simp_all add: path_step_def)
  let ?t = "tickup (bump QueriesRetried 1 s)"
  have t: "gain E d r ?t" "same_config r ?t" using g by (simp_all add: gain_def same_config_def tickup_def bump_def)
  have "r_store r' = r_store s \<or> (\<exists>y u. resolve E ctx req d ?t = Some (y, u) \<and> snd (flight_end E req y u) = r')"
    using assms x
    by (auto simp: flight_def Let_def bind_eq_Some_conv case_prod_unfold split: if_splits option.splits)
  then show ?thesis
  proof
    assume "\<exists>y u. resolve E ctx req d ?t = Some (y, u) \<and> snd (flight_end E req y u) = r'"
    then obtain y u where y: "resolve E ctx req d ?t = Some (y, u)" "snd (flight_end E req y u) = r'" by blast
    have "gain E d r u" using gain_trans [OF t resolve_gain [OF y(1)]] .
    then show ?thesis using flight_end_store y(2) by (auto simp: gain_def)
  qed (use g in \<open>simp add: gain_def\<close>)
qed

lemma Resolve_gain:
  assumes "Resolve E ctx shared (Some req) r = Some (v, r')" "mQuestion req = q # qs"
  shows "gain E (qName q) r r'"
proof (cases "r_stopped r")
  case False
  obtain s where b: "Resolve_body E ctx shared req q (enter r) = Some (v, s)" and r': "r_store r' = r_store s"
    using assms False by (auto simp: Resolve_def bind_eq_Some_conv exit_call_def bump_def)
  have "gain E (qName q) r s"
    using b
  proof (cases rule: Resolve_body_cases)
    case (miss c)
    let ?r = "bump CacheMiss 1 (looked_up c (enter r))"
    have r: "r_store ?r = r_store r" "same_config ?r r" by (simp_all add: enter_def same_config_def tickup_def bump_def)
    consider "s = ?r" | w where "flight E ctx req (qName q) ?r = Some (w, s)"
      using miss(2) by (auto simp: Resolve_miss_def Let_def bind_eq_Some_conv split: option.splits)
    then show ?thesis
    proof cases
      case 1
      then show ?thesis using r(1) gain_same by blast
    next
      case 2
      then show ?thesis using gain_store_eq [OF r flight_gain] by blast
    qed
  qed (simp_all add: gain_def enter_def)
  then show ?thesis using r' by (simp add: gain_def)
qed (use assms in \<open>simp add: Resolve_def gain_def\<close>)

section \<open>The running program\<close>

text \<open>The names that requests and flights have asked for.\<close>

definition asked :: "sys \<Rightarrow> string set" where
  "asked s = {normalize (qName q) | q qs req m.
     (req, m) \<in> set (sys_log s) \<union> set (sys_flights s) \<and> mQuestion req = q # qs}"

text \<open>The Iranian server has given an answer with addresses, none of them hijacked.\<close>

definition vouched :: "env \<Rightarrow> resolver \<Rightarrow> bool" where
  "vouched E r \<longleftrightarrow> (\<exists>m. from_iran E r m \<and> extractIPs m \<noteq> [] \<and> \<not> isHijacked r (extractIPs m))"

lemma evidence_vouched: "evidence E r \<Longrightarrow> vouched E r"
  by (auto simp: evidence_def vouched_def iran_verified_def Let_def)

lemma vouched_config: "same_config r s \<Longrightarrow> vouched E s = vouched E r"
  using from_config [of r s E] same_config_hijacked [of r s] by (simp add: vouched_def)

lemma vouched_background [simp]:
  "vouched E (r\<lparr>r_store := st, r_classifier := k, r_metrics := m\<rparr>) = vouched E r"
  by (simp add: vouched_def from_iran_def isHijacked_def)

lemma vouched_parts [simp]:
  "vouched E (r\<lparr>r_store := st\<rparr>) = vouched E r" "vouched E (r\<lparr>r_metrics := m\<rparr>) = vouched E r"
  "vouched E (r\<lparr>r_store := st, r_metrics := m\<rparr>) = vouched E r"
  "vouched E (r\<lparr>r_classifier := k\<rparr>) = vouched E r"
  using vouched_background [where r = r and st = st and k = "r_classifier r" and m = "r_metrics r" and E = E]
    vouched_background [where r = r and st = "r_store r" and k = "r_classifier r" and m = m and E = E]
    vouched_background [where r = r and st = st and k = "r_classifier r" and m = m and E = E]
    vouched_background [where r = r and st = "r_store r" and k = k and m = "r_metrics r" and E = E]
  by simp_all

definition traced :: "env \<Rightarrow> sys \<Rightarrow> sys \<Rightarrow> bool" where
  "traced E s0 s \<longleftrightarrow> set (domains (r_store (sys_res s))) \<subseteq>
     set (domains (r_store (sys_res s0))) \<union> (if vouched E (sys_res s) then asked s else {})"

lemma traced_step:
  assumes "traced E s0 s" "vouched E (sys_res t) = vouched E (sys_res s)" "asked s \<subseteq> asked t"
    and "set (domains (r_store (sys_res t))) \<subseteq> set (domains (r_store (sys_res s)))
           \<union> (if vouched E (sys_res s) then asked t else {})"
  shows "traced E s0 t"
  using assms by (auto simp: traced_def split: if_splits)

lemma gain_vouched: "gain E d r r' \<Longrightarrow> set (domains (r_store r')) \<subseteq> set (domains (r_store r)) \<union> (if vouched E r then {normalize d} else {})"
  using evidence_vouched [of E r] by (auto simp: gain_def split: if_splits)

lemma cleanup_subset:
  assumes "store_cleanup ce (st, m, fs) = (st', m', fs')" "ce_mid ce = id"
  shows "set (domains st') \<subseteq> set (domains st)"
proof -
  have "set (domains (fst (cleanup_remove rs (st, m)))) \<subseteq> set (domains st)" for rs m
    using delete_all_subset by (fastforce simp: cleanup_remove_def split: prod.splits)
  moreover have "domains (fst (writeAll io ord tmp (s, f))) = domains s" for io ord tmp s f
    by (simp add: writeAll_def Let_def)
  ultimately show ?thesis
    using assms by (auto simp: store_cleanup_def Let_def split: if_splits prod.splits) (metis fst_conv subsetD)+
qed

lemma store_loop_domains:
  "flushPersist ap (s, fs) = (s', fs') \<Longrightarrow> domains s' = domains s"
  "writeAll io ord tmp (s, fs) = (s', fs') \<Longrightarrow> domains s' = domains s"
  "flushState io tmp (s, fs) = (s', fs') \<Longrightarrow> domains s' = domains s"
  by (auto simp: flushPersist_def flush_drain_def writeAll_def flushState_def Let_def
      split: if_splits option.splits prod.splits)

lemma request_traced:
  assumes "traced E s0 s" "sys_inv E s" "env_ok E" "may_share (e_lib E) shared req s"
    and "handle E remote shared req (sys_sv s) = Some (m, sv')"
  shows "traced E s0 (s\<lparr>sys_sv := sv', sys_log := (req, m) # sys_log s\<rparr>)"
  using assms(5)
proof (cases rule: handle_cases)
  case gate
  have "same_config (sys_res s) (sv_res sv')" "r_store (sv_res sv') = r_store (sys_res s)"
    using gate(1) by (simp_all add: gate_step_def)
  then show ?thesis
    using vouched_config [of "sys_res s" "sv_res sv'" E] by (intro traced_step [OF assms(1)]) (auto simp: asked_def)
next
  case (resolved r v r' ctx)
  obtain q qs where q: "mQuestion req = q # qs" using resolved(7) by (cases "mQuestion req") auto
  note L = assms(3) [unfolded env_ok_def]
  have r: "same_config (sys_res s) r" "r_store r = r_store (sys_res s)" "r_cache r = r_cache (sys_res s)"
    using resolved(1) by (simp_all add: gate_step_def)
  note q0 = quiet_gate [OF resolved(1), of E]
  have cs: "cache_safe E r" using quiet_cache_safe [OF q0 r(3)] assms(2) by (simp add: sys_inv_def)
  have sh: "flight_ok E r req x" if "shared = Some x" for x
    using share_ok [of E x req s] assms(2,4) that L resolved(7) quiet_flight_ok [OF q0] by simp
  have "same_config r r'" using Resolve_spec [OF resolved(2) cs _ _ sh] L by (simp add: call_step_def)
  then have c: "same_config (sys_res s) r'" using r(1) same_config_trans by blast
  have "set (domains (r_store r')) \<subseteq> set (domains (r_store (sys_res s)))
      \<union> (if vouched E (sys_res s) then {normalize (qName q)} else {})"
    using gain_vouched [OF Resolve_gain [OF resolved(2) q]] r(2) vouched_config [OF r(1), of E] by simp
  then show ?thesis
    using vouched_config [OF c, of E] resolved(4) q
    by (intro traced_step [OF assms(1)]) (auto simp: asked_def split: if_splits)
qed

lemma lead_traced:
  assumes "traced E s0 s" "sys_inv E s" "env_ok E" "mQuestion req = q # qs"
    and "flight E ctx req (qName q) (sys_res s) = Some (Some v, r')"
  shows "traced E s0 ((set_res r' s)\<lparr>sys_flights := (req, v) # sys_flights s\<rparr>)"
proof -
  have cs: "cache_safe E (sys_res s)" using assms(2) by (simp add: sys_inv_def)
  have "call_step (sys_res s) r'"
    using flight_spec [OF assms(5) cs] assms(3,4) flight_step_call by (auto simp: env_ok_def)
  then have "vouched E r' = vouched E (sys_res s)" by (intro vouched_config) (simp add: call_step_def)
  then show ?thesis
    using gain_vouched [OF flight_gain [OF assms(5)]] assms(4)
    by (intro traced_step [OF assms(1)]) (auto simp: asked_def set_res_def split: if_splits)
qed

lemma goroutine_traced:
  assumes "traced E s0 s"
  shows "traced E s0 (set_res (run_launched E p ((sys_res s)\<lparr>pending := xs\<rparr>)) s)"
proof -
  let ?r = "(sys_res s)\<lparr>pending := xs\<rparr>"
  have n: "net_step ?r (run_launched E p ?r)" by (rule run_launched_net)
  then have "same_config (sys_res s) (run_launched E p ?r)" by (simp add: net_step_def same_config_def)
  then show ?thesis
    using n vouched_config [of "sys_res s" "run_launched E p ?r" E]
    by (intro traced_step [OF assms]) (auto simp: asked_def set_res_def net_step_def)
qed

lemma background_traced:
  assumes "traced E s0 s" "set (domains (r_store r')) \<subseteq> set (domains (r_store (sys_res s)))"
    and "vouched E r' = vouched E (sys_res s)"
  shows "traced E s0 ((set_res r' s)\<lparr>sys_fs := fs'\<rparr>)" "traced E s0 (set_res r' s)"
  using assms(2,3) by (auto intro!: traced_step [OF assms(1)] simp: asked_def set_res_def)

lemma sys_step_traced:
  assumes "traced E s0 s" "sys_inv E s" "env_ok E" "sys_step E s t"
  shows "traced E s0 t"
  using assms(4)
proof cases
  case (request remote shared req m sv')
  then show ?thesis using request_traced [OF assms(1-3)] by blast
next
  case (lead req q qs ctx v r')
  then show ?thesis using lead_traced [OF assms(1-3)] by blast
next
  case (goroutine xs p ys)
  then show ?thesis using goroutine_traced [OF assms(1)] by blast
next
  case (cache_sweep now)
  have "vouched E ((sys_res s)\<lparr>r_cache := cache_cleanup now (r_cache (sys_res s))\<rparr>) = vouched E (sys_res s)"
    by (rule vouched_config) (simp add: same_config_def)
  then show ?thesis using cache_sweep by (auto intro!: background_traced(2) [OF assms(1)])
next
  case (limiter_sweep now)
  then show ?thesis by (auto intro!: traced_step [OF assms(1)] simp: asked_def)
next
  case (ranges_update u io tmp rf sio stmp now unix http c' m' fs')
  show ?thesis unfolding ranges_update(1) by (rule background_traced(1) [OF assms(1)]) simp_all
next
  case (cleanup ce st m' fs')
  then show ?thesis using cleanup_subset by (auto intro!: background_traced(1) [OF assms(1)] simp del: fun_upd_apply) blast
qed (auto intro!: background_traced(1) [OF assms(1)] dest: store_loop_domains)

interpretation provenance: invariant_system "\<lambda>s. s = s0 \<and> sys_start E s" "sys_step E"
  "\<lambda>s. env_ok E \<longrightarrow> sys_inv E s \<and> traced E s0 s" for E :: env and s0 :: sys
proof unfold_locales
  fix s assume "s = s0 \<and> sys_start E s"
  then show "env_ok E \<longrightarrow> sys_inv E s \<and> traced E s0 s" using sys_start_inv by (auto simp: traced_def)
next
  fix s t assume "env_ok E \<longrightarrow> sys_inv E s \<and> traced E s0 s" "sys_step E s t"
  then show "env_ok E \<longrightarrow> sys_inv E t \<and> traced E s0 t"
    using sys_step_inv [of E s t] sys_step_traced [of E s0 s t] by (auto simp: env_ok_def)
qed

text \<open>
  C3. In every reachable state each learned domain is accounted for: it was in the file when the program
  started, or a request has asked for exactly this name and the Iranian server has given an answer with
  addresses of which none is hijacked. Neither the goroutines that outlive their requests nor the
  cleanup, the timers of the store or an update of the ranges ever add a domain.
\<close>

theorem learned_domains_traced:
  assumes "env_ok E" "sys_start E s0" "reachable (\<lambda>s. s = s0) (sys_step E) s" "d \<in> set (domains (r_store (sys_res s)))"
  shows "d \<in> set (domains (r_store (sys_res s0)))
     \<or> ((\<exists>req m q qs. (req, m) \<in> set (sys_log s) \<union> set (sys_flights s) \<and> mQuestion req = q # qs \<and> d = normalize (qName q))
        \<and> (\<exists>a. from_iran E (sys_res s) a \<and> extractIPs a \<noteq> [] \<and> \<not> isHijacked (sys_res s) (extractIPs a)))"
proof -
  have "(\<lambda>s. s = s0) = (\<lambda>s. s = s0 \<and> sys_start E s)" using assms(2) by auto
  then have "reachable (\<lambda>s. s = s0 \<and> sys_start E s) (sys_step E) s" using assms(3) by simp
  from provenance.reachable_inv [OF this] have "traced E s0 s" using assms(1) by simp
  then have "d \<in> set (domains (r_store (sys_res s0))) \<or> d \<in> asked s \<and> vouched E (sys_res s)"
    using assms(4) by (auto simp: traced_def split: if_splits)
  then show ?thesis unfolding asked_def vouched_def by blast
qed

section \<open>Witnesses\<close>

lemma sample_learned:
  obtains v r' where "flight learning_env None sample_req ''www.Example.com.'' (sv_res sample_sv) = Some (Some v, r')"
    "domains (r_store r') = [''www.example.com'']"
proof -
  have "(case flight learning_env None sample_req ''www.Example.com.'' (sv_res sample_sv) of
      Some (Some v, r') \<Rightarrow> domains (r_store r') = [''www.example.com''] | _ \<Rightarrow> False)"
    by code_simp
  with that show ?thesis by (auto split: option.splits)
qed

theorem learned_domains_traced_witness:
  "\<exists>s a. domains (r_store (sys_res s)) = [''www.example.com''] \<and> from_iran learning_env (sys_res s) a
     \<and> \<not> isHijacked (sys_res s) (extractIPs a)"
proof -
  let ?init = "\<lparr>sys_sv = sample_sv, sys_fs = sample_fs, sys_flights = [], sys_log = []\<rparr>"
  obtain v r' where f: "flight learning_env None sample_req ''www.Example.com.'' (sv_res sample_sv) = Some (Some v, r')"
    "domains (r_store r') = [''www.example.com'']" by (rule sample_learned)
  let ?s = "(set_res r' ?init)\<lparr>sys_flights := [(sample_req, v)]\<rparr>"
  have e: "env_ok learning_env" using sample_lib_ok iter_order_id by (simp add: env_ok_def sample_env_def)
  have s0: "sys_start learning_env ?init"
    using sample_start unfolding sys_start_def sys.simps sample_env_lib by blast
  have q: "mQuestion sample_req = \<lparr>qName = ''www.Example.com.'', qType = 1, qClass = 1\<rparr> # []" by (simp add: sample_query_def)
  have "reachable (\<lambda>s. s = ?init) (sys_step learning_env) ?init" by (rule reachable.start) (rule refl)
  moreover have "sys_step learning_env ?init ?s"
    using lead [of sample_req _ _ learning_env None ?init v r', OF q] f(1) by simp
  ultimately have r: "reachable (\<lambda>s. s = ?init) (sys_step learning_env) ?s" by (rule reachable.advance)
  have d: "domains (r_store (sys_res ?s)) = [''www.example.com'']" using f(2) by (simp add: set_res_def)
  have "domains (r_store (sys_res ?init)) = []"
    by (simp add: sample_sv_def build_resolver_fields empty_store_def)
  with learned_domains_traced [OF e s0 r, of "''www.example.com''"] d show ?thesis by auto
qed

end
