(* ===== verification/Restart.thy ===== *)
theory Restart
  imports Domain_Store
begin

text \<open>
  What survives a restart: the state file across a crash, and the counters of learned domains from
  \<open>Store.Stop\<close> (or the reset at midnight) to \<open>Metrics.RestoreFromFile\<close> of the next process.
\<close>

lemma state_Load_content: "fs path = Some (Marshal s) \<Longrightarrow> state_ok s \<Longrightarrow> state_Load path fs = s"
  by (simp add: state_Load_def Unmarshal_Marshal)

lemma state_Load_cong: "fs path = fs' path \<Longrightarrow> state_Load path fs = state_Load path fs'"
  by (simp add: state_Load_def)

text \<open>
  C15. The state file is replaced as a whole and reads back: after \<open>Save\<close> reports success, \<open>Load\<close> returns
  the saved state; after an error it returns what it returned before; and a crash after any of the
  system calls of \<open>Save\<close>, whichever of them fail, leaves a file that loads as the old or the new state.
\<close>

theorem state_Save_atomic:
  assumes "state_ok s" "tmp \<noteq> path" "state_Save io tmp path s fs = (err, fs')"
  shows "state_Load path fs' = (if err then state_Load path fs else s)
     \<and> (\<forall>c \<in> set (crash_states (Save_calls io tmp path (Marshal s)) fs).
          state_Load path c = state_Load path fs \<or> state_Load path c = s)"
proof
  show "state_Load path fs' = (if err then state_Load path fs else s)"
    using assms Save_ok_content [of io tmp path "Marshal s" fs] Save_err_keeps [of io tmp path "Marshal s" fs]
      state_Load_content [of fs' path s] state_Load_cong [of fs' path fs]
    by (auto simp: state_Save_def)
  show "\<forall>c \<in> set (crash_states (Save_calls io tmp path (Marshal s)) fs).
      state_Load path c = state_Load path fs \<or> state_Load path c = s"
  proof
    fix c assume "c \<in> set (crash_states (Save_calls io tmp path (Marshal s)) fs)"
    then have "c path = fs path \<or> c path = Some (Marshal s)"
      using state_file.crash_old_or_new [OF assms(2)] by blast
    then show "state_Load path c = state_Load path fs \<or> state_Load path c = s"
      using state_Load_content [OF _ assms(1)] state_Load_cong [of c path fs] by blast
  qed
qed

lemma state_Update_content:
  assumes "\<not> Save_err io" "tmp \<noteq> path" "state_ok (f (state_Load path fs))"
  shows "state_Load path (snd (state_Update io tmp path f fs)) = f (state_Load path fs)"
  using Save_ok_content [OF assms(1,2)] assms(3)
  by (simp add: state_Update_def state_Save_def Let_def state_Load_content)


text \<open>
  C33. After the reset at midnight they do not: it saves the total as the value at midnight but leaves the
  saved total as it was at the last save. A process that is killed and started again before the next
  save restores a total below the value at midnight, and \<open>learned_today\<close> then stays at zero until the
  total has caught up: the first \<open>total - saved\<close> domains learned that day are not counted.
\<close>

theorem midnight_reset_undercounts:
  assumes "midnight_reset io tmp today (m, fs) = (m', fs')" "\<not> Save_err io" "tmp \<noteq> path"
    and "m_statePath m = path" "path \<noteq> []" "is_ascii today" "state_ok (state_Load path fs)"
    and "0 < cnt m LearnedTotal" "cnt m LearnedTotal < 2 ^ 63"
    and "saved = st_LearnedTotalCount (state_Load path fs)" "0 \<le> k" "saved + k \<le> cnt m LearnedTotal"
  shows "LearnedTodayValue (inc LearnedTotal k (RestoreFromFile path today fs' (metrics_New now))) = 0"
proof -
  let ?new = "(state_Load path fs)\<lparr>st_LearnedTodayDate := today, st_LearnedTodayCount := 0,
      st_LearnedTotalAtMidnight := cnt m LearnedTotal\<rparr>"
  have "state_ok ?new" using assms(6-9) by (simp add: state_ok_def)
  then have "state_Load path fs' = ?new"
    using assms(1,4,5) state_Update_content [OF assms(2,3)]
    by (auto simp: midnight_reset_def Let_def)
  then show ?thesis
    using assms(8,10-12) by (simp add: RestoreFromFile_def LearnedTodayValue_def Let_def counter_simps)
qed

section \<open>Witnesses\<close>

definition counted :: metrics where
  "counted = put LearnedTotalAtMidnight 5 (put LearnedTotal 7 ((metrics_New 0)\<lparr>m_statePath := ''p''\<rparr>))"

lemma zero_State_ok: "state_ok zero_State"
  by (simp add: state_ok_def zero_State_def is_ascii_def)

lemma empty_load: "state_Load p Map.empty = zero_State"
  by (simp add: state_Load_def)

theorem state_Save_atomic_witness:
  "\<exists>fs'. state_Save io_fine ''t'' ''p'' (zero_State\<lparr>st_LearnedTotalCount := 7\<rparr>) Map.empty = (False, fs')
     \<and> st_LearnedTotalCount (state_Load ''p'' fs') = 7"
proof -
  let ?s = "zero_State\<lparr>st_LearnedTotalCount := 7\<rparr>"
  obtain fs' where r: "state_Save io_fine ''t'' ''p'' ?s Map.empty = (False, fs')"
    by (simp add: state_Save_def Save_err_def io_fine_def)
  have "state_ok ?s" by (simp add: state_ok_def zero_State_def is_ascii_def)
  from state_Save_atomic [OF this _ r] r show ?thesis by simp
qed


theorem midnight_reset_undercounts_witness:
  "\<exists>m' fs'. midnight_reset io_fine ''t'' ''2024-01-02'' (counted, Map.empty) = (m', fs')
     \<and> LearnedTodayValue (inc LearnedTotal 3 (RestoreFromFile ''p'' ''2024-01-02'' fs' (metrics_New 9))) = 0"
proof -
  obtain m' fs' where r: "midnight_reset io_fine ''t'' ''2024-01-02'' (counted, Map.empty) = (m', fs')" by fastforce
  have "LearnedTodayValue (inc LearnedTotal 3 (RestoreFromFile ''p'' ''2024-01-02'' fs' (metrics_New 9))) = 0"
    using midnight_reset_undercounts [OF r, where path = "''p''" and saved = 0 and k = 3 and now = 9]
    by (simp add: Save_err_def io_fine_def counted_def counter_simps is_ascii_def empty_load)
       (simp add: zero_State_def state_ok_def is_ascii_def)
  then show ?thesis using r by blast
qed

end
