(* ===== verification/Metrics_Export.thy ===== *)
theory Metrics_Export
  imports Metrics Go_Json
begin

text \<open>
  Package \<open>internal/metrics\<close>, the endpoints: the JSON document of \<open>/metrics\<close> and \<open>/health\<close>, and the
  text of \<open>/metrics/prom\<close>. The struct \<open>response\<close> is the list of its JSON tags with their values, in
  the order of the struct. The clock is the argument \<open>now\<close>; \<open>fmt\<close> is \<open>time.Time.Format\<close> with the
  layout of the program in the local time zone. A \<open>float64\<close> is a rational: the counters are below
  \<open>2 ^ 53\<close>, where the conversion is exact, and the rounding of a quotient is far below the last
  printed digit. The HTTP server itself (\<open>StartServer\<close>) is not modelled beyond its routes.
\<close>

section \<open>Durations\<close>

text \<open>\<open>time.Duration.Round\<close>: halves away from zero, saturating.\<close>

definition round_dur :: "int \<Rightarrow> int \<Rightarrow> int" where
  "round_dur d u =
     (let r = \<bar>d\<bar> mod u; a = (if 2 * r < u then \<bar>d\<bar> - r else \<bar>d\<bar> + (u - r))
      in if d < 0 then max (- (2 ^ 63)) (- a) else min (2 ^ 63 - 1) a)"

text \<open>\<open>time.Duration.String\<close> of a whole number of minutes.\<close>

definition minutes_string :: "int \<Rightarrow> string" where
  "minutes_string d =
     (if d = 0 then ''0s''
      else let m = \<bar>d\<bar> div minute
           in (if d < 0 then ''-'' else []) @ (if m div 60 > 0 then Itoa (m div 60) @ ''h'' else [])
              @ Itoa (m mod 60) @ ''m0s'')"

text \<open>The conversions \<open>int(d.Hours())\<close> and so on of a non-negative whole number of seconds.\<close>

definition Uptime :: "int \<Rightarrow> metrics \<Rightarrow> string" where
  "Uptime now m =
     (let d = round_dur (now - m_startTime m) second;
          days = d div hour div 24; hours = d div hour mod 24; minutes = d div minute mod 60; seconds = d div second mod 60
      in if days > 0 then Itoa days @ ''d '' @ Itoa hours @ ''h '' @ Itoa minutes @ ''m''
         else if hours > 0 then Itoa hours @ ''h '' @ Itoa minutes @ ''m''
         else Itoa minutes @ ''m '' @ Itoa seconds @ ''s'')"

section \<open>The JSON endpoints\<close>

definition hitRatio :: "metrics \<Rightarrow> string" where
  "hitRatio m =
     (if cnt m QueriesTotal > 0
      then fixed 1 (of_int (cnt m QueriesCached) / of_int (cnt m QueriesTotal) * 100) @ ''%'' else ''0%'')"

definition last_update :: "(int \<Rightarrow> string) \<Rightarrow> int \<Rightarrow> metrics \<Rightarrow> string \<times> string" where
  "last_update fmt now m =
     (case m_LastUpdateTime m of None \<Rightarrow> (''never'', ''never'')
      | Some t \<Rightarrow> (fmt t, minutes_string (round_dur (now - t) minute)))"

definition avg_ms :: "counter \<Rightarrow> counter \<Rightarrow> metrics \<Rightarrow> int" where
  "avg_ms tot qc m =
     (if cnt m qc > 0 then quot64 (quot64 (cnt m tot) (cnt m qc)) millisecond else 0)"

definition response :: "(int \<Rightarrow> string) \<Rightarrow> int \<Rightarrow> int \<Rightarrow> metrics \<Rightarrow> (string \<times> scalar) list" where
  "response fmt now storeSize m =
     [(''uptime'', SStr (Uptime now m)),
      (''start_time'', SStr (fmt (m_startTime m))),
      (''queries_total'', SInt (cnt m QueriesTotal)),
      (''queries_iran'', SInt (cnt m QueriesIran)),
      (''queries_global'', SInt (cnt m QueriesGlobal)),
      (''queries_retried'', SInt (cnt m QueriesRetried)),
      (''queries_servfail'', SInt (cnt m QueriesServfail)),
      (''queries_cached'', SInt (cnt m QueriesCached)),
      (''cache_miss'', SInt (cnt m CacheMiss)),
      (''cache_hit_ratio'', SStr (hitRatio m)),
      (''learned_total'', SInt (cnt m LearnedTotal)),
      (''learned_today'', SInt (LearnedTodayValue m)),
      (''store_size'', SInt storeSize),
      (''store_removed'', SInt (cnt m StoreRemoved)),
      (''store_cleaned'', SInt (cnt m StoreCleaned)),
      (''last_update_time'', SStr (fst (last_update fmt now m))),
      (''last_update_success'', SBool (m_LastUpdateSuccess m)),
      (''last_update_ago'', SStr (snd (last_update fmt now m))),
      (''path_tld'', SInt (cnt m PathTLD)),
      (''path_prefer_iran'', SInt (cnt m PathPreferIran)),
      (''path_store'', SInt (cnt m PathStore)),
      (''path_learn'', SInt (cnt m PathLearn)),
      (''path_static'', SInt (cnt m PathStatic)),
      (''iran_avg_latency_ms'', SInt (avg_ms IranLatencyTotal IranQueryCount m)),
      (''iran_timeouts'', SInt (cnt m IranTimeouts)),
      (''global_avg_latency_ms'', SInt (avg_ms GlobalLatencyTotal GlobalQueryCount m)),
      (''global_timeouts'', SInt (cnt m GlobalTimeouts)),
      (''global_fallback_count'', SInt (cnt m GlobalFallbackCount)),
      (''global_fallback_avg_latency_ms'', SInt (avg_ms GlobalFallbackLatencyTotal GlobalFallbackCount m)),
      (''tcp_fallback_count'', SInt (cnt m TcpFallbackCount)),
      (''in_flight_queries'', SInt (cnt m InFlightQueries)),
      (''queries_rate_limited'', SInt (cnt m QueriesRateLimited)),
      (''queries_global_limited'', SInt (cnt m QueriesGlobalLimited)),
      (''loop_detections'', SInt (cnt m LoopDetections)),
      (''iran_cb_skipped'', SInt (cnt m IranCBSkipped)),
      (''iran_cb_trips'', SInt (cnt m IranCBTrips)),
      (''iran_cb_open'', SInt (cnt m IranCBOpen)),
      (''global_cb_skipped'', SInt (cnt m GlobalCBSkipped)),
      (''global_cb_trips'', SInt (cnt m GlobalCBTrips)),
      (''global_cb_open'', SInt (cnt m GlobalCBOpen)),
      (''short_wait_expired'', SInt (cnt m ShortWaitExpired))]"

definition MetricsHandler :: "(int \<Rightarrow> string) \<Rightarrow> int \<Rightarrow> int \<Rightarrow> metrics \<Rightarrow> string" where
  "MetricsHandler fmt now storeSize m = print_object (response fmt now storeSize m) @ [NL]"

definition HealthHandler :: "int \<Rightarrow> metrics \<Rightarrow> string" where
  "HealthHandler now m = print_object [(''status'', SStr ''ok''), (''uptime'', SStr (Uptime now m))] @ [NL]"

section \<open>The Prometheus endpoint\<close>

definition promDefs :: "string list" where
  "promDefs =
    [''Total queries received'', ''Queries routed via Iranian TLD path'',
     ''Queries routed via prefer-iran path'', ''Queries routed via learned-store path'',
     ''Queries routed via learning path'', ''Queries answered from static records'',
     ''Queries served from cache'', ''Cache misses'', ''Queries retried after SERVFAIL'',
     ''Queries answered SERVFAIL'', ''Queries denied by per-client rate limit'',
     ''Queries denied by global QPS cap'', ''Queries refused by loop detection'',
     ''Domains learned (cumulative)'', ''Learned domains removed'', ''Learned domains cleaned'',
     ''IranDNS timeouts'', ''GlobalDNS timeouts'', ''TCP fallback queries'',
     ''GlobalDNS fallback queries'', ''Iran circuit breaker skipped queries'',
     ''Iran circuit breaker trips'', ''Global circuit breaker skipped queries'',
     ''Global circuit breaker trips'', ''ShortWait expired before GlobalDNS responded'']"

definition promGaugeDefs :: "string list" where
  "promGaugeDefs =
    [''Process uptime'', ''Process start time (unix seconds)'', ''Cache hit ratio (0-1)'',
     ''Domains learned today'', ''Learned store size'',
     ''Last Iran ranges update (unix seconds, 0 = never)'',
     ''Last Iran ranges update succeeded (1 = yes)'', ''IranDNS average latency (seconds)'',
     ''GlobalDNS average latency (seconds)'', ''GlobalDNS fallback average latency (seconds)'',
     ''Queries currently in flight'', ''Iran circuit breaker open (1 = open)'',
     ''Global circuit breaker open (1 = open)'']"

definition counterNames :: "string list" where
  "counterNames =
    [''sentrydns_queries_total'', ''sentrydns_path_tld_total'', ''sentrydns_path_prefer_iran_total'',
     ''sentrydns_path_store_total'', ''sentrydns_path_learn_total'', ''sentrydns_path_static_total'',
     ''sentrydns_queries_cached_total'', ''sentrydns_cache_miss_total'',
     ''sentrydns_queries_retried_total'', ''sentrydns_queries_servfail_total'',
     ''sentrydns_queries_rate_limited_total'', ''sentrydns_queries_global_limited_total'',
     ''sentrydns_loop_detections_total'', ''sentrydns_learned_total'',
     ''sentrydns_store_removed_total'', ''sentrydns_store_cleaned_total'',
     ''sentrydns_iran_timeouts_total'', ''sentrydns_global_timeouts_total'',
     ''sentrydns_tcp_fallback_total'', ''sentrydns_global_fallback_total'',
     ''sentrydns_iran_cb_skipped_total'', ''sentrydns_iran_cb_trips_total'',
     ''sentrydns_global_cb_skipped_total'', ''sentrydns_global_cb_trips_total'',
     ''sentrydns_short_wait_expired_total'']"

definition counterValues :: "metrics \<Rightarrow> int list" where
  "counterValues m = map (cnt m)
    [QueriesTotal, PathTLD, PathPreferIran, PathStore, PathLearn, PathStatic, QueriesCached, CacheMiss,
     QueriesRetried, QueriesServfail, QueriesRateLimited, QueriesGlobalLimited, LoopDetections,
     LearnedTotal, StoreRemoved, StoreCleaned, IranTimeouts, GlobalTimeouts, TcpFallbackCount,
     GlobalFallbackCount, IranCBSkipped, IranCBTrips, GlobalCBSkipped, GlobalCBTrips, ShortWaitExpired]"

definition gaugeNames :: "string list" where
  "gaugeNames =
    [''sentrydns_uptime_seconds'', ''sentrydns_start_time_seconds'', ''sentrydns_cache_hit_ratio'',
     ''sentrydns_learned_today'', ''sentrydns_store_size'', ''sentrydns_last_update_timestamp_seconds'',
     ''sentrydns_last_update_success'', ''sentrydns_iran_avg_latency_seconds'',
     ''sentrydns_global_avg_latency_seconds'', ''sentrydns_global_fallback_avg_latency_seconds'',
     ''sentrydns_in_flight_queries'', ''sentrydns_iran_cb_open'', ''sentrydns_global_cb_open'']"

definition avg_seconds :: "counter \<Rightarrow> counter \<Rightarrow> metrics \<Rightarrow> rat" where
  "avg_seconds tot qc m =
     (if cnt m qc > 0 then of_int (cnt m tot) / of_int (cnt m qc) / 1000000000 else 0)"

definition gaugeValues :: "int \<Rightarrow> int \<Rightarrow> metrics \<Rightarrow> rat list" where
  "gaugeValues now storeSize m =
    [of_int (now - m_startTime m) / 1000000000,
     of_int (m_startTime m div second),
     (if cnt m QueriesTotal > 0 then of_int (cnt m QueriesCached) / of_int (cnt m QueriesTotal) else 0),
     of_int (LearnedTodayValue m),
     of_int storeSize,
     of_int (case m_LastUpdateTime m of None \<Rightarrow> 0 | Some t \<Rightarrow> t div second),
     (if m_LastUpdateSuccess m then 1 else 0),
     avg_seconds IranLatencyTotal IranQueryCount m,
     avg_seconds GlobalLatencyTotal GlobalQueryCount m,
     avg_seconds GlobalFallbackLatencyTotal GlobalFallbackCount m,
     of_int (cnt m InFlightQueries),
     of_int (cnt m IranCBOpen),
     of_int (cnt m GlobalCBOpen)]"

definition formatFloat :: "rat \<Rightarrow> string" where
  "formatFloat v = TrimRight (TrimRight (fixed 6 v) (CHR ''0'')) DOT"

definition prom_block :: "string \<Rightarrow> string \<Rightarrow> string \<Rightarrow> string \<Rightarrow> string" where
  "prom_block typ help name val =
     ''# HELP '' @ name @ '' '' @ help @ [NL] @ ''# TYPE '' @ name @ '' '' @ typ @ [NL] @ name @ '' '' @ val @ [NL]"

text \<open>The two loops; an index out of range would panic, which is \<^const>\<open>None\<close>.\<close>

definition prom_loop :: "string \<Rightarrow> string list \<Rightarrow> string list \<Rightarrow> string list \<Rightarrow> string option" where
  "prom_loop typ helps names vals =
     (if length helps \<le> length names \<and> length helps \<le> length vals
      then Some (concat (map (\<lambda>(i, help). prom_block typ help (names ! i) (vals ! i)) (enumerate 0 helps)))
      else None)"

definition PrometheusHandler :: "int \<Rightarrow> int \<Rightarrow> metrics \<Rightarrow> string option" where
  "PrometheusHandler now storeSize m =
     (case prom_loop ''counter'' promDefs counterNames (map Itoa (counterValues m)) of None \<Rightarrow> None
      | Some a \<Rightarrow>
         (case prom_loop ''gauge'' promGaugeDefs gaugeNames (map formatFloat (gaugeValues now storeSize m)) of
            None \<Rightarrow> None | Some b \<Rightarrow> Some (a @ b)))"

text \<open>\<open>StartServer\<close>: what is served under which path; \<open>net/http\<close> answers other paths with 404 and drops
  the connection when a handler panics.\<close>

datatype http_reply = Body string string | NotFound | Dropped

definition serve_http :: "(int \<Rightarrow> string) \<Rightarrow> int \<Rightarrow> int \<Rightarrow> metrics \<Rightarrow> string \<Rightarrow> http_reply" where
  "serve_http fmt now storeSize m path =
     (if path = ''/metrics'' then Body ''application/json'' (MetricsHandler fmt now storeSize m)
      else if path = ''/metrics/prom'' then
        (case PrometheusHandler now storeSize m of None \<Rightarrow> Dropped
         | Some t \<Rightarrow> Body ''text/plain; version=0.0.4; charset=utf-8'' t)
      else if path = ''/health'' then Body ''application/json'' (HealthHandler now m) else NotFound)"

section \<open>What the texts show\<close>

lemma is_ascii_append [simp]: "is_ascii (s @ t) \<longleftrightarrow> is_ascii s \<and> is_ascii t"
  by (simp add: is_ascii_def)

lemma is_ascii_Cons [simp]: "is_ascii [] " "is_ascii (c # s) \<longleftrightarrow> (of_char c :: int) < 128 \<and> is_ascii s"
  by (simp_all add: is_ascii_def)

lemma digit_ascii: "is_digit c \<Longrightarrow> (of_char c :: int) < 128"
  by (auto simp: is_digit_def digit_val_def Let_def split: if_splits)

lemma udec_ascii: "0 \<le> n \<Longrightarrow> is_ascii (udec n)"
  using udec_is_digit [of n] digit_ascii by (auto simp: is_ascii_def list_all_iff)

lemma Itoa_ascii [simp]: "is_ascii (Itoa n)"
  using udec_ascii [of n] udec_ascii [of "- n"] by (simp add: Itoa_def is_ascii_def)

lemma pad_ascii: "is_ascii s \<Longrightarrow> is_ascii (pad w s)"
  by (auto simp: pad_def is_ascii_def list_all_iff)

lemma fixed_ascii: "is_ascii (fixed k v)"
proof -
  let ?n = "round_half_even (\<bar>v\<bar> * 10 ^ k)"
  have "0 \<le> ?n" by (rule round_half_even_nonneg) simp
  then have "is_ascii (udec (?n div 10 ^ k))" "is_ascii (pad k (udec (?n mod 10 ^ k)))"
    by (simp_all add: udec_ascii pad_ascii pos_imp_zdiv_nonneg_iff)
  then show ?thesis by (simp add: fixed_def Let_def is_ascii_def)
qed

lemma TrimRight_dot: "c \<noteq> DOT \<Longrightarrow> TrimRight (a @ DOT # b) c = a @ DOT # TrimRight b c"
  by (simp add: TrimRight_def dropWhile_append)

lemma pad_facts:
  assumes "0 \<le> n" "n < 10 ^ k" "0 < k"
  shows "length (pad k (udec n)) = k" "digits_val 0 (pad k (udec n)) = Some n"
    "c \<in> set (pad k (udec n)) \<Longrightarrow> is_digit c"
  using udec_length [OF assms] digits_val_zeros digits_val_udec [OF assms(1)] udec_is_digit [OF assms(1)]
  by (auto simp: pad_def is_digit_def zero_digit split: if_splits)

lemma DOT_no_digit: "\<not> is_digit DOT"
  by (simp add: is_digit_def digit_val_def)

text \<open>What \<^const>\<open>formatFloat\<close> prints of a number with the digits \<open>n\<close> in units of a millionth.\<close>

lemma read_trimmed:
  assumes "0 \<le> n"
  shows "read_dec (TrimRight (TrimRight (udec (n div 10 ^ 6) @ DOT # pad 6 (udec (n mod 10 ^ 6))) (CHR ''0'')) DOT)
    = Some (of_int n / 10 ^ 6)"
proof -
  have nn: "0 \<le> n div 10 ^ 6" using assms by (simp add: pos_imp_zdiv_nonneg_iff)
  have m: "0 \<le> n mod 10 ^ 6" "n mod 10 ^ 6 < 10 ^ 6" by simp_all
  define a where "a = udec (n div 10 ^ 6)"
  define b where "b = pad 6 (udec (n mod 10 ^ 6))"
  define t where "t = TrimRight b (CHR ''0'')"
  have b: "length b = 6" "digits_val 0 b = Some (n mod 10 ^ 6)" "\<And>c. c \<in> set b \<Longrightarrow> is_digit c"
    using pad_facts [OF m] unfolding b_def by simp_all
  have a: "digits_val 0 a = Some (n div 10 ^ 6)" "\<And>c. c \<in> set a \<Longrightarrow> is_digit c" "a \<noteq> []"
    using digits_val_udec [OF nn] udec_is_digit [OF nn] udec_digits [OF nn] unfolding a_def by simp_all
  have la: "last a \<noteq> DOT" using a(2,3) DOT_no_digit last_in_set by metis
  obtain k where k: "b = t @ replicate k (CHR ''0'')" using TrimRight_split unfolding t_def by blast
  have td: "c \<in> set t \<Longrightarrow> is_digit c" for c using b(3) unfolding k by simp
  obtain f where f: "digits_val 0 t = Some f" using digits_val_all [OF td] by blast
  have fk: "n mod 10 ^ 6 = f * 10 ^ k" using digits_val_shift [OF f, of k] b(2) unfolding k by (simp del: power_numeral)
  have l: "length t + k = 6" using b(1) unfolding k by simp
  have n: "(of_int n :: rat) = of_int (n div 10 ^ 6) * 10 ^ 6 + of_int f * 10 ^ k"
  proof -
    have "n = n div 10 ^ 6 * 10 ^ 6 + f * 10 ^ k" using fk div_mult_mod_eq [of n "10 ^ 6"] by simp
    from arg_cong [OF this, of "of_int :: int \<Rightarrow> rat"] show ?thesis by simp
  qed
  have r: "TrimRight (a @ DOT # b) (CHR ''0'') = a @ DOT # t" unfolding t_def by (rule TrimRight_dot) simp
  have "read_dec (TrimRight (a @ DOT # t) DOT) = Some (of_int n / 10 ^ 6)"
  proof (cases "t = []")
    case True
    have "f = 0" using f True by simp
    moreover have "TrimRight (a @ [DOT]) DOT = a" using TrimRight_id [OF a(3) la] by simp
    moreover have "takeWhile is_digit a = a" "dropWhile is_digit a = []" using a(2) by (simp_all add: takeWhile_eq_all_conv)
    then have "read_dec a = Some (of_int (n div 10 ^ 6))" using a(1) unfolding read_dec_def Let_def by (simp only: option.case simp_thms if_True)
    ultimately show ?thesis using n True by simp
  next
    case False
    have "last t \<noteq> DOT" using td False DOT_no_digit last_in_set by metis
    then have "TrimRight (a @ DOT # t) DOT = a @ DOT # t" using False by (intro TrimRight_id) simp_all
    moreover have "takeWhile is_digit (a @ DOT # t) = a" "dropWhile is_digit (a @ DOT # t) = DOT # t"
      using a(2) DOT_no_digit by (simp_all add: takeWhile_append dropWhile_append)
    moreover have "(of_int f :: rat) / 10 ^ length t = of_int f * 10 ^ k / 10 ^ 6"
      unfolding l [symmetric] power_add by simp
    ultimately show ?thesis using a(1) f n unfolding read_dec_def Let_def by (simp add: add_divide_distrib)
  qed
  then show ?thesis unfolding a_def [symmetric] b_def [symmetric] r .
qed

lemma zero_char: "digit_char 0 = CHR ''0''"
  by (simp add: digit_char_def char_of_def char_of_char)

lemma TrimRight_zeros: "TrimRight (replicate k c) c = []"
  by (simp add: TrimRight_def)

lemma formatFloat_nat:
  assumes "0 \<le> n"
  shows "fixed 6 (of_int n) = udec n @ DOT # replicate 6 (CHR ''0'')"
    "n \<noteq> 0 \<Longrightarrow> fixed 6 (- of_int n) = CHR ''-'' # udec n @ DOT # replicate 6 (CHR ''0'')"
    "TrimRight (udec n) DOT = udec n"
proof -
  have "round_half_even (of_int n * 10 ^ 6) = n * 10 ^ 6"
    by (metis of_int_mult of_int_numeral of_int_power round_half_even_of_int)
  then show "fixed 6 (of_int n) = udec n @ DOT # replicate 6 (CHR ''0'')"
    "n \<noteq> 0 \<Longrightarrow> fixed 6 (- of_int n) = CHR ''-'' # udec n @ DOT # replicate 6 (CHR ''0'')"
    using assms by (simp_all add: fixed_def Let_def pad_def udec.simps [of 0] zero_char numeral_eq_Suc)
  show "TrimRight (udec n) DOT = udec n"
    using udec_digits [OF assms] udec_is_digit [OF assms] DOT_no_digit last_in_set by (metis TrimRight_id)
qed

lemma formatFloat_int: "formatFloat (of_int n) = Itoa n"
proof (cases "n < 0")
  case True
  have "TrimRight (CHR ''-'' # udec (- n)) DOT = CHR ''-'' # udec (- n)"
    using True formatFloat_nat(3) [of "- n"] udec_digits [of "- n"] TrimRight_last [of "udec (- n)" DOT]
    by (intro TrimRight_id) auto
  then show ?thesis
    using True formatFloat_nat(2) [of "- n"] TrimRight_dot [of "CHR ''0''" "CHR ''-'' # udec (- n)"]
      TrimRight_snoc [of "CHR ''-'' # udec (- n)" DOT]
    by (simp add: formatFloat_def TrimRight_zeros Itoa_def)
next
  case False
  then show ?thesis
    using formatFloat_nat [of n] TrimRight_dot [of "CHR ''0''" "udec n"]
    by (simp add: formatFloat_def TrimRight_zeros Itoa_def)
qed

text \<open>
  C28. \<open>formatFloat\<close> is exact to six decimals: the number it prints, with or without a fraction, is within
  half a millionth of the value, and a whole number prints as \<open>%d\<close> would print it.
\<close>

theorem formatFloat_near:
  assumes "0 \<le> v"
  shows "(\<exists>q. read_dec (formatFloat v) = Some q \<and> \<bar>q - v\<bar> \<le> 1 / 2000000)
     \<and> (\<forall>n. v = of_int n \<longrightarrow> formatFloat v = Itoa n)"
proof
  let ?n = "round_half_even (v * 10 ^ 6)"
  have n: "0 \<le> ?n" using assms by (simp add: round_half_even_nonneg)
  have f: "formatFloat v = TrimRight (TrimRight (udec (?n div 10 ^ 6) @ DOT # pad 6 (udec (?n mod 10 ^ 6))) (CHR ''0'')) DOT"
    using assms by (simp add: formatFloat_def fixed_def Let_def)
  have "\<bar>of_int ?n - v * 10 ^ 6\<bar> \<le> 1 / 2" by (rule round_half_even_near)
  then have "\<bar>of_int ?n / 10 ^ 6 - v\<bar> \<le> 1 / 2000000" by (auto simp: abs_le_iff field_simps)
  then show "\<exists>q. read_dec (formatFloat v) = Some q \<and> \<bar>q - v\<bar> \<le> 1 / 2000000"
    using read_trimmed [OF n] unfolding f by blast
  show "\<forall>n. v = of_int n \<longrightarrow> formatFloat v = Itoa n"
    using formatFloat_int by simp
qed

lemma minutes_string_ascii: "is_ascii (minutes_string d)"
  by (simp add: minutes_string_def Let_def)

lemma Uptime_ascii: "is_ascii (Uptime now m)"
  by (simp add: Uptime_def Let_def)

lemma hitRatio_ascii: "is_ascii (hitRatio m)"
  by (simp add: hitRatio_def fixed_ascii)

lemma last_update_ascii:
  assumes "\<And>t. is_ascii (fmt t)"
  shows "is_ascii (fst (last_update fmt now m))" "is_ascii (snd (last_update fmt now m))"
  using assms minutes_string_ascii by (auto simp: last_update_def split: option.splits)


section \<open>Reading the Prometheus text\<close>

text \<open>
  A scraper takes the lines that are neither empty nor comments and splits each at its first space.
\<close>

abbreviation SPACE :: char where "SPACE \<equiv> CHR '' ''"

definition prom_line :: "string \<Rightarrow> string \<times> string" where
  "prom_line l = (takeWhile (\<lambda>c. c \<noteq> SPACE) l, tl (dropWhile (\<lambda>c. c \<noteq> SPACE) l))"

definition prom_scrape :: "string \<Rightarrow> (string \<times> string) list" where
  "prom_scrape t = map prom_line (filter (\<lambda>l. l \<noteq> [] \<and> hd l \<noteq> CHR ''#'') (Split t NL))"

definition name_ok :: "string \<Rightarrow> bool" where
  "name_ok n \<longleftrightarrow> n \<noteq> [] \<and> hd n \<noteq> CHR ''#'' \<and> NL \<notin> set n \<and> SPACE \<notin> set n"

lemma Split_line: "NL \<notin> set a \<Longrightarrow> Split (a @ NL # t) NL = a # Split t NL"
  by (induction a) auto

lemma prom_line_pair: "SPACE \<notin> set n \<Longrightarrow> prom_line (n @ SPACE # v) = (n, v)"
  by (induction n) (auto simp: prom_line_def)

lemma scrape_block:
  assumes "name_ok n" "NL \<notin> set h" "NL \<notin> set v" "NL \<notin> set typ"
  shows "prom_scrape (prom_block typ h n v @ t) = (n, v) # prom_scrape t"
proof -
  have l: "prom_block typ h n v @ t =
      (''# HELP '' @ n @ SPACE # h) @ NL # (''# TYPE '' @ n @ SPACE # typ) @ NL # (n @ SPACE # v) @ NL # t"
    by (simp add: prom_block_def)
  show ?thesis
    using assms unfolding prom_scrape_def l
    by (subst Split_line, simp add: name_ok_def)+ (simp add: name_ok_def prom_line_pair hd_append)
qed

lemma scrape_blocks:
  assumes "list_all (\<lambda>(h, n, v). name_ok n \<and> NL \<notin> set h \<and> NL \<notin> set v) ps" "NL \<notin> set typ"
  shows "prom_scrape (concat (map (\<lambda>(h, n, v). prom_block typ h n v) ps) @ t) = map snd ps @ prom_scrape t"
  using assms by (induction ps) (auto simp: scrape_block)

lemma prom_loop_zip:
  assumes "length names = length helps" "length vals = length helps"
  shows "prom_loop typ helps names vals = Some (concat (map (\<lambda>(h, n, v). prom_block typ h n v) (zip helps (zip names vals))))"
proof -
  have "map (\<lambda>(i, h). prom_block typ h (names ! i) (vals ! i)) (enumerate 0 helps)
      = map (\<lambda>(h, n, v). prom_block typ h n v) (zip helps (zip names vals))"
    using assms by (intro nth_equalityI) (simp_all add: nth_enumerate_eq)
  then show ?thesis using assms by (simp add: prom_loop_def)
qed

lemma scrape_loop:
  assumes "prom_loop typ helps names vals = Some a" "length names = length helps" "length vals = length helps"
    and "list_all name_ok names" "list_all (\<lambda>h. NL \<notin> set h) helps" "list_all (\<lambda>v. NL \<notin> set v) vals" "NL \<notin> set typ"
  shows "prom_scrape (a @ t) = zip names vals @ prom_scrape t"
proof -
  have "list_all (\<lambda>(h, n, v). name_ok n \<and> NL \<notin> set h \<and> NL \<notin> set v) (zip helps (zip names vals))"
    using assms(2-6) by (simp add: list_all_length)
  from scrape_blocks [OF this assms(7)] show ?thesis
    using assms(1-3) prom_loop_zip [OF assms(2,3)] by simp
qed

lemma no_NL: "is_digit c \<Longrightarrow> c \<noteq> NL"
  by (auto simp: is_digit_def digit_val_def)

lemma Itoa_no_NL: "NL \<notin> set (Itoa n)"
  using udec_is_digit [of n NL] udec_is_digit [of "- n" NL] no_NL [of NL] by (auto simp: Itoa_def)

lemma set_TrimRight: "set (TrimRight s c) \<subseteq> set s"
  using set_dropWhileD [of _ _ "rev s"] by (auto simp: TrimRight_def)

lemma fixed_no_NL: "NL \<notin> set (fixed 6 v)"
proof -
  let ?n = "round_half_even (\<bar>v\<bar> * 10 ^ 6)"
  have n: "0 \<le> ?n" by (rule round_half_even_nonneg) simp
  then have "NL \<notin> set (udec (?n div 10 ^ 6))"
    using udec_is_digit [of "?n div 10 ^ 6" NL] no_NL [of NL] by (auto simp: pos_imp_zdiv_nonneg_iff)
  moreover have "NL \<notin> set (pad 6 (udec (?n mod 10 ^ 6)))"
    using pad_facts(3) [of "?n mod 10 ^ 6" 6 NL] no_NL [of NL] by auto
  ultimately show ?thesis by (simp add: fixed_def Let_def)
qed

lemma formatFloat_no_NL: "NL \<notin> set (formatFloat v)"
  using fixed_no_NL [of v] set_TrimRight unfolding formatFloat_def by blast

lemma prom_tables:
  "length counterNames = length promDefs" "length (counterValues m) = length promDefs"
  "length gaugeNames = length promGaugeDefs" "length (gaugeValues now n m) = length promGaugeDefs"
  by (simp_all add: counterNames_def counterValues_def gaugeNames_def gaugeValues_def promDefs_def promGaugeDefs_def)

lemma prom_names: "list_all name_ok counterNames" "list_all name_ok gaugeNames"
  "list_all (\<lambda>h. NL \<notin> set h) promDefs" "list_all (\<lambda>h. NL \<notin> set h) promGaugeDefs"
  "distinct (counterNames @ gaugeNames)"
  by (code_simp+)

text \<open>The tables of the handler have matching lengths, so no index is out of range, and its text reads back.\<close>

lemma Prometheus_reads_back:
  "\<exists>t. PrometheusHandler now n m = Some t
     \<and> prom_scrape t = zip counterNames (map Itoa (counterValues m)) @ zip gaugeNames (map formatFloat (gaugeValues now n m))"
proof -
  obtain a where a: "prom_loop ''counter'' promDefs counterNames (map Itoa (counterValues m)) = Some a"
    using prom_loop_zip prom_tables by simp
  obtain b where b: "prom_loop ''gauge'' promGaugeDefs gaugeNames (map formatFloat (gaugeValues now n m)) = Some b"
    using prom_loop_zip prom_tables by simp
  have "prom_scrape (a @ b) = zip counterNames (map Itoa (counterValues m)) @ prom_scrape b"
    by (rule scrape_loop [OF a]) (simp_all add: prom_tables prom_names list_all_iff Itoa_no_NL
        prom_names [unfolded list_all_iff])
  moreover have "prom_scrape (b @ []) = zip gaugeNames (map formatFloat (gaugeValues now n m)) @ prom_scrape []"
    by (rule scrape_loop [OF b]) (simp_all add: prom_tables list_all_iff formatFloat_no_NL
        prom_names [unfolded list_all_iff])
  ultimately show ?thesis using a b by (simp add: PrometheusHandler_def prom_scrape_def)
qed

text \<open>The field of \<open>/metrics\<close> and the metric of \<open>/metrics/prom\<close> that stand for the same counter.\<close>

definition shared_metrics :: "(string \<times> string) list" where
  "shared_metrics =
    [(''queries_total'', ''sentrydns_queries_total''),
     (''path_tld'', ''sentrydns_path_tld_total''),
     (''path_prefer_iran'', ''sentrydns_path_prefer_iran_total''),
     (''path_store'', ''sentrydns_path_store_total''),
     (''path_learn'', ''sentrydns_path_learn_total''),
     (''path_static'', ''sentrydns_path_static_total''),
     (''queries_cached'', ''sentrydns_queries_cached_total''),
     (''cache_miss'', ''sentrydns_cache_miss_total''),
     (''queries_retried'', ''sentrydns_queries_retried_total''),
     (''queries_servfail'', ''sentrydns_queries_servfail_total''),
     (''queries_rate_limited'', ''sentrydns_queries_rate_limited_total''),
     (''queries_global_limited'', ''sentrydns_queries_global_limited_total''),
     (''loop_detections'', ''sentrydns_loop_detections_total''),
     (''learned_total'', ''sentrydns_learned_total''),
     (''store_removed'', ''sentrydns_store_removed_total''),
     (''store_cleaned'', ''sentrydns_store_cleaned_total''),
     (''iran_timeouts'', ''sentrydns_iran_timeouts_total''),
     (''global_timeouts'', ''sentrydns_global_timeouts_total''),
     (''tcp_fallback_count'', ''sentrydns_tcp_fallback_total''),
     (''global_fallback_count'', ''sentrydns_global_fallback_total''),
     (''iran_cb_skipped'', ''sentrydns_iran_cb_skipped_total''),
     (''iran_cb_trips'', ''sentrydns_iran_cb_trips_total''),
     (''global_cb_skipped'', ''sentrydns_global_cb_skipped_total''),
     (''global_cb_trips'', ''sentrydns_global_cb_trips_total''),
     (''short_wait_expired'', ''sentrydns_short_wait_expired_total''),
     (''learned_today'', ''sentrydns_learned_today''),
     (''store_size'', ''sentrydns_store_size''),
     (''in_flight_queries'', ''sentrydns_in_flight_queries''),
     (''iran_cb_open'', ''sentrydns_iran_cb_open''),
     (''global_cb_open'', ''sentrydns_global_cb_open'')]"

text \<open>The positions of the shared metrics in the two tables.\<close>

definition shared_positions :: "(nat \<times> nat) list" where
  "shared_positions =
    [(2, 0), (18, 1), (19, 2), (20, 3), (21, 4), (22, 5), (7, 6), (8, 7), (5, 8), (6, 9), (31, 10),
     (32, 11), (33, 12), (10, 13), (13, 14), (14, 15), (24, 16), (26, 17), (29, 18), (27, 19), (34,
     20), (35, 21), (37, 22), (38, 23), (40, 24), (11, 28), (12, 29), (30, 35), (36, 36), (39, 37)]"

definition response_names :: "string list" where
  "response_names = map fst (response (\<lambda>t. []) 0 0 (metrics_New 0))"

lemma list_all2_transfer:
  "list_all2 P xs ys \<Longrightarrow> list_all Q ys \<Longrightarrow> (\<And>x y. P x y \<Longrightarrow> Q y \<Longrightarrow> R x) \<Longrightarrow> list_all R xs"
  by (induction rule: list_all2_induct) auto

lemma map_of_position: "distinct ks \<Longrightarrow> length ks = length vs \<Longrightarrow> i < length ks \<Longrightarrow> map_of (zip ks vs) (ks ! i) = Some (vs ! i)"
  by (rule map_of_is_SomeI) (auto simp: set_zip)

lemma response_names_eq: "response_names = [''uptime'', ''start_time'', ''queries_total'', ''queries_iran'', ''queries_global'', ''queries_retried'', ''queries_servfail'', ''queries_cached'', ''cache_miss'', ''cache_hit_ratio'', ''learned_total'', ''learned_today'', ''store_size'', ''store_removed'', ''store_cleaned'', ''last_update_time'', ''last_update_success'', ''last_update_ago'', ''path_tld'', ''path_prefer_iran'', ''path_store'', ''path_learn'', ''path_static'', ''iran_avg_latency_ms'', ''iran_timeouts'', ''global_avg_latency_ms'', ''global_timeouts'', ''global_fallback_count'', ''global_fallback_avg_latency_ms'', ''tcp_fallback_count'', ''in_flight_queries'', ''queries_rate_limited'', ''queries_global_limited'', ''loop_detections'', ''iran_cb_skipped'', ''iran_cb_trips'', ''iran_cb_open'', ''global_cb_skipped'', ''global_cb_trips'', ''global_cb_open'', ''short_wait_expired'']"
  by (simp add: response_names_def response_def)

lemma response_zip: "response fmt now n m = zip response_names (map snd (response fmt now n m))"
  unfolding response_names_eq by (simp add: response_def)

lemma shared_positions_ok:
  "list_all2 (\<lambda>(j, p) (i, k). i < 41 \<and> response_names ! i = j \<and> k < 38 \<and> (counterNames @ gaugeNames) ! k = p)
     shared_metrics shared_positions"
  unfolding response_names_eq shared_metrics_def shared_positions_def counterNames_def gaugeNames_def by simp

lemma response_names_distinct: "distinct response_names"
  unfolding response_names_eq by simp

lemma shared_values:
  "list_all (\<lambda>(i, k). \<exists>v. map snd (response fmt now n m) ! i = SInt v
       \<and> (map Itoa (counterValues m) @ map formatFloat (gaugeValues now n m)) ! k = Itoa v) shared_positions"
  by (simp add: shared_positions_def response_def counterValues_def gaugeValues_def formatFloat_int)

lemma shared_table:
  "list_all (\<lambda>(j, p). \<exists>v. map_of (response fmt now n m) j = Some (SInt v)
      \<and> map_of (zip (counterNames @ gaugeNames) (map Itoa (counterValues m) @ map formatFloat (gaugeValues now n m))) p
         = Some (Itoa v)) shared_metrics"
proof -
  have l: "length response_names = 41" "length (map snd (response fmt now n m)) = 41"
    "length (counterNames @ gaugeNames) = 38"
    "length (map Itoa (counterValues m) @ map formatFloat (gaugeValues now n m)) = 38"
    unfolding response_names_eq by (simp_all add: prom_tables promDefs_def promGaugeDefs_def) (simp add: response_def)
  let ?vs = "map Itoa (counterValues m) @ map formatFloat (gaugeValues now n m)"
  have z: "zip response_names (map snd (response fmt now n m)) = response fmt now n m"
    by (rule response_zip [symmetric])
  have a: "map_of (response fmt now n m) (response_names ! i) = Some (map snd (response fmt now n m) ! i)" if "i < 41" for i
    using map_of_position [OF response_names_distinct, of "map snd (response fmt now n m)" i] that l(1,2) unfolding z by simp
  have b: "map_of (zip (counterNames @ gaugeNames) ?vs) ((counterNames @ gaugeNames) ! k) = Some (?vs ! k)" if "k < 38" for k
    using map_of_position [OF prom_names(5), of ?vs k] that l(3,4) by (simp only:)
  have "\<exists>v. map_of (response fmt now n m) j = Some (SInt v)
      \<and> map_of (zip (counterNames @ gaugeNames) ?vs) p = Some (Itoa v)"
    if h: "i < 41 \<and> response_names ! i = j \<and> k < 38 \<and> (counterNames @ gaugeNames) ! k = p"
      and e: "\<exists>v. map snd (response fmt now n m) ! i = SInt v \<and> ?vs ! k = Itoa v" for i j k p
  proof -
    obtain v where "map snd (response fmt now n m) ! i = SInt v" "?vs ! k = Itoa v" using e by (elim exE conjE)
    then show ?thesis using h a [of i] b [of k] by (intro exI [of _ v]) (simp only: simp_thms)
  qed
  note row = this
  show ?thesis
    by (rule list_all2_transfer [OF shared_positions_ok shared_values [of fmt now n m]])
       (use row in \<open>simp only: split_paired_all prod.case\<close>)
qed


lemma serve_http_never_drops: "serve_http fmt now n m path \<noteq> Dropped"
  using Prometheus_reads_back [of now n m] by (auto simp: serve_http_def)

section \<open>Witnesses\<close>

theorem formatFloat_near_witness:
  "\<exists>q. read_dec (formatFloat (1 / 3)) = Some q \<and> \<bar>q - 1 / 3\<bar> \<le> 1 / 2000000"
  using formatFloat_near [of "1 / 3"] by simp


end
