(* ===== verification/Spec2Isabelle.thy ===== *)
theory Spec2Isabelle
  imports Provenance Restart Metrics_Export
begin

text \<open>
  \<^bold>\<open>A verification of SentryDNS\<close>

  SentryDNS is a DNS forwarder with two upstream servers, one inside Iran (\<open>iran_dns\<close>) and one outside
  (\<open>global_dns\<close>). It decides for each name which of them to believe: the Iranian server for names under
  Iranian TLDs, preferred names and names it has learned, the global server when the Iranian answer is
  hijacked, and a race of the two for names it does not know yet, from which it learns.

  \<^bold>\<open>The parts and how they interact.\<close> \<open>main\<close> (\<open>cmd/sentrydns/main.go\<close>) loads the configuration, builds
  the components and installs the handler. The handler refuses looped queries, asks the global and the
  per-client limiter (\<open>internal/ratelimit\<close>) and calls \<open>Resolver.Resolve\<close> (\<open>internal/resolver\<close>), which
  answers from pinned records, from the cache (\<open>internal/cache\<close>), or by a flight shared among the
  callers with the same key. A flight takes one of four paths; they query the upstreams through two
  circuit breakers, ask the classifier (\<open>internal/classifier\<close>) about addresses, and add to or remove
  from the store of learned domains (\<open>internal/store\<close>), which keeps its own file and, through
  \<open>internal/state\<close>, the state file. The updater (\<open>internal/updater\<close>) replaces the file of Iranian
  ranges and reloads the classifier. All of them count in \<open>internal/metrics\<close>, whose endpoints show the
  counters; \<open>internal/logger\<close> writes the log.

  \<^bold>\<open>Theories.\<close>
  \<^item> \<open>Go_Base\<close>: the prelude. Go's integers, byte strings and scanners, domain suffixes, reachability;
    the collections \<open>frame\<close>, \<open>inv_intro\<close>; the locales \<open>suffix_matcher\<close> (names matched label by label) and
    \<open>invariant_system\<close> (an invariant of a step relation).
  \<^item> \<open>Net_Addr\<close>, \<open>Go_Text\<close>, \<open>Go_Json\<close>, \<open>File_System\<close>: what the program uses of \<open>net\<close>, \<open>net/netip\<close>,
    \<open>strconv\<close>, \<open>fmt\<close>, \<open>encoding/json\<close> and \<open>os\<close>. Printed addresses, integers and JSON objects parse back.
    A file operation is a list of system calls and a crash a prefix of it; the locale \<open>atomic_replace\<close>
    is the contract of replacing a file through a temporary one, with three implementations.
  \<^item> \<open>Dns_Msg\<close>: messages, and \<open>github.com/miekg/dns\<close> as the record \<open>dns_lib\<close> with its documented laws
    (\<open>lib_reply_ok\<close>, \<open>lib_rcode_ok\<close>, \<open>lib_types_ok\<close>, \<open>lib_edns_ok\<close>).
  \<^item> \<open>Circuit_Breaker\<close>: the breaker of \<open>resolver.go\<close>; its methods one by one refine a count of failures in
    excess of successes, and their atomic operations interleaved (\<open>cb_step\<close>) let one probe through per
    trip.
  \<^item> \<open>Dns_Cache\<close>: \<open>cache.go\<close>; a lookup after \<open>Set\<close>, the size bound, eviction; the locale \<open>response_cache\<close>
    is what the resolver relies on (every stored message keeps a predicate that held when it was set).
  \<^item> \<open>Classifier\<close>: \<open>classifier.go\<close>; the sorted lookup agrees with membership in some loaded prefix.
  \<^item> \<open>Rate_Limit\<close>: \<open>ratelimit.go\<close> and \<open>global.go\<close>; bounds per client and window, sharding by the 64-bit hash
    refines one map, the token bucket admits at most its burst and rate and starves nobody.
  \<^item> \<open>State_File\<close>, \<open>Metrics\<close>, \<open>Restart\<close>: \<open>state.go\<close>, \<open>metrics.go\<close>; the state file is replaced as a whole and
    reads back, counters survive a restart.
  \<^item> \<open>Domain_Store\<close>, \<open>Store_Persist\<close>: \<open>store.go\<close>, first each operation alone (lookup, learning, removal,
    cleanup, stop, rewriting and reading the file), then their critical sections interleaved
    (\<open>ps_step\<close>): without I/O errors no learned domain is lost.
  \<^item> \<open>Updater\<close>: \<open>updater.go\<close>; an update happens entirely or not at all, whatever call fails or crashes.
  \<^item> \<open>Config\<close>: \<open>config.go\<close>, with what \<open>Validate\<close> guarantees and what it lets through.
  \<^item> \<open>Resolver_State\<close>, \<open>Resolver_Query\<close>, \<open>Resolver_Learning\<close>, \<open>Resolver_Resolve\<close>, \<open>Resolver_Behaviour\<close>:
    \<open>resolver.go\<close> in the order of its functions: state and matching, one query with its fallback and
    TCP retry, the learning race, the paths and \<open>Resolve\<close>, and concrete runs with the behaviours that
    go wrong.
  \<^item> \<open>Logger\<close>: \<open>logger.go\<close>; the file gets exactly the lines at or above the level.
  \<^item> \<open>Server\<close>: \<open>main.go\<close>; construction, handler, schedule of the cleanup, shutdown.
  \<^item> \<open>System\<close>: the running program as the step relation \<open>sys_step\<close> over requests, flights, goroutines left
    behind and background loops, with the invariant \<open>sys_inv\<close>: every reply is safe and carries the
    request's identifier, the counters account for every request, all data structures stay well formed;
    and the handler answers at the deadline when no upstream does.
  \<^item> \<open>Provenance\<close>: in a running program every learned domain was in the file at the start or was asked for
    and vouched for by an unhijacked Iranian answer.
  \<^item> \<open>Metrics_Export\<close>: \<open>server.go\<close> and \<open>prometheus.go\<close> of \<open>internal/metrics\<close>; the JSON documents parse, the
    Prometheus text reads back and agrees with them.

  \<^bold>\<open>How state and effects are modelled.\<close> A struct is a record of the same fields, a method a function on
  it. A Go map is an association list or the list of its keys, its iteration order a parameter
  (\<open>iter_order\<close>). The outside of a resolver is the record \<open>env\<close>: answers of the network, the clock, which
  branch a \<open>select\<close> takes, random numbers and dates, each indexed by the counter \<open>tick\<close> so that two
  questions may get two answers; a theorem about all \<open>env\<close> is about every network and every schedule.
  \<^const>\<open>None\<close> as the result of such a run means that the branch the environment picks is not ready. Errors
  are values of a sum or option type; a panic is \<open>Panic\<close>, or \<^const>\<open>None\<close> where the text says so. Integers
  keep their width where they can wrap (\<open>64 word\<close> generations and hash, \<open>32 word\<close> TTLs and failure
  counts); counters are unbounded integers, which an \<open>int64\<close> is for \<open>2 ^ 63\<close> increments.

  \<^bold>\<open>Fuel.\<close> \<open>stop_wait\<close> (the polling loop of \<open>Resolver.Stop\<close>) takes fuel; \<open>Stop_returns\<close> shows how much is
  enough when the clock advances. The JSON parser takes fuel \<open>2 * length + 1\<close>; \<open>parser_fuel\<close> shows that
  more changes nothing. All other recursion is structural or has a measure.

  \<^bold>\<open>Hypotheses.\<close> \<open>env_ok\<close> collects the laws of the DNS library and that iterating a map visits each key
  once. The YAML decoder and the conversion of a \<open>float64\<close> out of range are arguments.

  \<^bold>\<open>Not modelled.\<close> Listeners, signals, the HTTP server around the endpoints and the text of log lines are
  input and output. Floating-point numbers are rationals (with NaN and infinities where the
  configuration can have them); rounding errors of quotients are ignored. Time zones: a date is a
  string given by the environment, and a day has 24 hours. The nesting limit of the JSON parser. In
  \<open>System\<close> a step is a whole handler or a whole run of a background loop; the interleavings inside are
  those of \<open>Circuit_Breaker\<close>, \<open>Store_Persist\<close> and the learning race, and the interleaving of a cleanup
  with other goroutines is the parameter \<open>ce_mid\<close> of \<open>store_cleanup\<close>. Weak memory effects are not
  considered: Go's atomics are sequentially consistent and everything else is under a mutex.
\<close>

end
